theory Spec2Isabelle
  imports Main "HOL-Library.Word" "HOL-Library.Monad_Syntax"
begin

section \<open>The data of lwip/src/core/tcp.c\<close>

text \<open>
  The embedding follows the build of tcp.c with IPv4 and IPv6 (the dual-stack listen exists),
  SO_REUSE and LWIP_TCP_KEEPALIVE switched on, TCP_DEBUG_PCB_LISTS switched off and
  LWIP_ASSERT compiled to nothing; where a theorem needs what an assertion states, it
  takes it as a hypothesis.

  A PCB lives at an address; \<open>None\<close> is the NULL pointer. The store maps every address to
  the fields of the PCB there, the \<open>next\<close> pointer among them, so the four lists are the
  intrusive singly linked lists of the C code and two pointers may alias.
  A function of the model returns an \<open>option\<close> wherever the C code walks a list: \<open>None\<close>
  means that the C function does not return (it follows a cyclic list for ever, or it
  dereferences NULL).
\<close>

type_synonym addr = nat
type_synonym u8_t = "8 word"
type_synonym u16_t = "16 word"
type_synonym u32_t = "32 word"
type_synonym s16_t = "16 word"
type_synonym tcpwnd_size_t = "16 word"

text \<open>The states, in the order of \<open>tcp_state_str\<close>.\<close>

datatype tcp_state = CLOSED | LISTEN | SYN_SENT | SYN_RCVD | ESTABLISHED | FIN_WAIT_1
  | FIN_WAIT_2 | CLOSE_WAIT | CLOSING | LAST_ACK | TIME_WAIT | LISTEN_CLOS

text \<open>
  lwip/tcp.h and lwip/ip.h are not among the sources, so the masks of the flag bits are
  unknown. Each flag is one bit of \<open>pcb->flags\<close> (of \<open>pcb->so_options\<close> for the socket
  options): the field is the set of the flags whose bit is set, \<open>flags & F\<close> is
  membership, \<open>flags |= F\<close> inserts and \<open>flags &= ~F\<close> removes.
\<close>

datatype tcp_flag = TF_ACK_DELAY | TF_ACK_NOW | TF_NAGLEMEMERR | TF_NOUSER | TF_BACKLOGPEND

datatype so_flag = SOF_REUSEADDR | SOF_KEEPALIVE

text \<open>
  Modelled from the spec: the address type of lwip/ip_addr.h, which is not among the
  sources. An address has an IP version and a value; the wildcard is the value zero; a
  NULL address pointer counts as the IPv4 wildcard.
\<close>

datatype ip_addr = IP4 "32 word" | IP6 "128 word"

fun IP_IS_V6_VAL :: "ip_addr \<Rightarrow> bool" where
  "IP_IS_V6_VAL (IP4 w) = False"
| "IP_IS_V6_VAL (IP6 w) = True"

fun ip_addr_isany_val :: "ip_addr \<Rightarrow> bool" where
  "ip_addr_isany_val (IP4 w) = (w = 0)"
| "ip_addr_isany_val (IP6 w) = (w = 0)"

definition IP_IS_V6 :: "ip_addr option \<Rightarrow> bool" where
  "IP_IS_V6 ipaddr = (case ipaddr of None \<Rightarrow> False | Some a \<Rightarrow> IP_IS_V6_VAL a)"

definition ip_addr_isany :: "ip_addr option \<Rightarrow> bool" where
  "ip_addr_isany ipaddr = (case ipaddr of None \<Rightarrow> True | Some a \<Rightarrow> ip_addr_isany_val a)"

definition ip_addr_cmp :: "ip_addr \<Rightarrow> ip_addr \<Rightarrow> bool" where
  "ip_addr_cmp a b = (a = b)"

text \<open>
  lwip/err.h is not among the sources. \<open>err_t\<close> is lwIP's \<open>s8_t\<close>; \<open>ERR_OK\<close> is 0 and
  the errors are negative. The numbers are lwIP's; the theorems use only that \<open>ERR_OK\<close>
  is 0 and that the codes differ from each other.
\<close>

type_synonym err_t = "8 word"

definition ERR_OK :: err_t where "ERR_OK = 0"
definition ERR_BUF :: err_t where "ERR_BUF = - 2"
definition ERR_RTE :: err_t where "ERR_RTE = - 4"
definition ERR_VAL :: err_t where "ERR_VAL = - 6"
definition ERR_USE :: err_t where "ERR_USE = - 8"
definition ERR_ABRT :: err_t where "ERR_ABRT = - 10"
definition ERR_CONN :: err_t where "ERR_CONN = - 13"

text \<open>
  \<open>struct tcp_pcb\<close> and \<open>struct tcp_pcb_listen\<close> (lwip/tcp.h, not among the sources) share
  their first fields (\<open>struct tcp_pcb_base\<close>) and the bound list holds both kinds, so one
  record carries the fields of both that tcp.c reads or writes. The send queue \<open>sndq\<close> is
  the chain of segments that starts at the head pointer (the empty list is NULL);
  \<open>sndq_last\<close> and \<open>sndq_next\<close> point into it. Callbacks are opaque pointers.
\<close>

record tcp_pcb =
  pcb_next :: "addr option"
  state :: tcp_state
  prio :: u8_t
  local_ip :: ip_addr
  local_port :: u16_t
  so_options :: "so_flag set"
  flags :: "tcp_flag set"
  accepts_pending :: u8_t
  backlog :: u8_t
  accept_any_ip_version :: u8_t
  initial_rcv_wnd :: tcpwnd_size_t
  remote_ip :: ip_addr
  remote_port :: u16_t
  listener :: "addr option"
  tmr :: u32_t
  last_timer :: u8_t
  nrtx :: u8_t
  persist_backoff :: u8_t
  persist_cnt :: u8_t
  rtime :: s16_t
  rto :: s16_t
  sa :: s16_t
  sv :: s16_t
  cwnd :: tcpwnd_size_t
  snd_wnd :: tcpwnd_size_t
  ssthresh :: tcpwnd_size_t
  mss :: u16_t
  keep_idle :: u32_t
  keep_intvl :: u32_t
  keep_cnt :: u32_t
  keep_cnt_sent :: u8_t
  sndq :: "nat list"
  sndq_last :: "nat option"
  sndq_next :: "nat option"
  rcv_nxt :: u32_t
  snd_nxt :: u32_t
  lastack :: u32_t
  snd_lbb :: u32_t
  rcv_wnd :: tcpwnd_size_t
  rcv_ann_wnd :: tcpwnd_size_t
  rcv_ann_right_edge :: u32_t
  connected :: "nat option"
  errf :: "nat option"

record tcp_iter =
  current :: "addr option"
  prev :: "addr option"
  next_is_current :: bool

text \<open>
  What the module hands to its collaborators is recorded as a trace of events: the calls
  of \<open>tcp_output\<close>, \<open>tcp_rst\<close>, the other functions of the segment layer, the error
  callback and \<open>tcp_timer_needed\<close>.
\<close>

datatype event =
    Ev_output addr "tcp_flag set"
  | Ev_rst u32_t u32_t ip_addr ip_addr u16_t u16_t
  | Ev_errf addr err_t
  | Ev_timer_needed
  | Ev_zero_window_probe addr
  | Ev_keepalive addr
  | Ev_rexmit_rto addr
  | Ev_enqueue_syn addr

text \<open>
  The globals of tcp.c: the store of PCBs, the four list heads, the iterator, the
  counters, the port cursor, the ISS seed (the static of \<open>tcp_next_iss\<close>), and
  \<open>tcp_input_pcb\<close>. \<open>freed\<close> and \<open>freed_segs\<close> list what was given back to the pools
  (\<open>memp_free\<close>).
\<close>

record tcp_glob =
  pcbs :: "addr \<Rightarrow> tcp_pcb"
  tcp_listen_pcbs :: "addr option"
  tcp_bound_pcbs :: "addr option"
  tcp_active_pcbs :: "addr option"
  tcp_tw_pcbs :: "addr option"
  tcp_conn_iter :: tcp_iter
  tcp_ticks :: u32_t
  tcp_timer :: u8_t
  tcp_timer_ctr :: u8_t
  tcp_port :: u16_t
  iss :: u32_t
  tcp_input_pcb :: "addr option"
  freed :: "addr list"
  freed_segs :: "nat list"
  trace :: "event list"

text \<open>
  The compile-time options that tcp.c reads from lwip/opt.h and lwip/tcp_impl.h (not among
  the sources) are parameters of the model. Times are in milliseconds.
\<close>

record tcp_opts =
  TCP_PRIO_MAX :: u8_t
  TCP_SYNMAXRTX :: u8_t
  TCP_MAXRTX :: u8_t
  TCP_MSL :: nat
  TCP_SLOW_INTERVAL :: nat
  TCP_FIN_WAIT_TIMEOUT :: nat
  TCP_SYN_RCVD_TIMEOUT :: nat
  TCP_WND :: nat
  TCP_MSS :: nat

text \<open>
  The collaborators of the segment layer and of the routing layer (tcp_out.c, ip.c; not
  among the sources) are parameters too: each says what the call does to the PCB it is
  given, and what it returns.
\<close>

record tcp_ext =
  ext_output :: "tcp_pcb \<Rightarrow> tcp_pcb"
  ext_zero_window_probe :: "tcp_pcb \<Rightarrow> err_t \<times> tcp_pcb"
  ext_keepalive :: "tcp_pcb \<Rightarrow> err_t \<times> tcp_pcb"
  ext_rexmit_rto :: "tcp_pcb \<Rightarrow> tcp_pcb"
  ext_enqueue_flags :: "tcp_pcb \<Rightarrow> err_t \<times> tcp_pcb"
  ext_route_get_local_ip :: "bool \<Rightarrow> ip_addr \<Rightarrow> ip_addr \<Rightarrow> nat option \<times> ip_addr option"
  ext_eff_send_mss :: "u16_t \<Rightarrow> ip_addr \<Rightarrow> ip_addr \<Rightarrow> bool \<Rightarrow> u16_t"

text \<open>\<open>tcp_pcb_lists\<close>: the array of the four list heads, in its order.\<close>

datatype pcb_list = L_listen | L_bound | L_active | L_tw

fun get_head :: "pcb_list \<Rightarrow> tcp_glob \<Rightarrow> addr option" where
  "get_head L_listen s = tcp_listen_pcbs s"
| "get_head L_bound s = tcp_bound_pcbs s"
| "get_head L_active s = tcp_active_pcbs s"
| "get_head L_tw s = tcp_tw_pcbs s"

fun set_head :: "pcb_list \<Rightarrow> addr option \<Rightarrow> tcp_glob \<Rightarrow> tcp_glob" where
  "set_head L_listen p s = s\<lparr>tcp_listen_pcbs := p\<rparr>"
| "set_head L_bound p s = s\<lparr>tcp_bound_pcbs := p\<rparr>"
| "set_head L_active p s = s\<lparr>tcp_active_pcbs := p\<rparr>"
| "set_head L_tw p s = s\<lparr>tcp_tw_pcbs := p\<rparr>"

definition tcp_pcb_lists :: "pcb_list list" where
  "tcp_pcb_lists = [L_listen, L_bound, L_active, L_tw]"

text \<open>An assignment to fields of the PCB at an address.\<close>

definition upd_pcb :: "addr \<Rightarrow> (tcp_pcb \<Rightarrow> tcp_pcb) \<Rightarrow> tcp_glob \<Rightarrow> tcp_glob" where
  "upd_pcb a f s = s\<lparr>pcbs := (pcbs s)(a := f (pcbs s a))\<rparr>"

definition log_event :: "event \<Rightarrow> tcp_glob \<Rightarrow> tcp_glob" where
  "log_event e s = s\<lparr>trace := trace s @ [e]\<rparr>"

section \<open>The operations\<close>

subsection \<open>Collaborators\<close>

definition tcp_output :: "tcp_ext \<Rightarrow> addr \<Rightarrow> tcp_glob \<Rightarrow> tcp_glob" where
  "tcp_output ext a s =
     upd_pcb a (ext_output ext) (log_event (Ev_output a (flags (pcbs s a))) s)"

definition tcp_rst :: "addr \<Rightarrow> tcp_glob \<Rightarrow> tcp_glob" where
  "tcp_rst a s =
     (let p = pcbs s a
      in log_event (Ev_rst (snd_nxt p) (rcv_nxt p) (local_ip p) (remote_ip p)
                      (local_port p) (remote_port p)) s)"

definition memp_free :: "addr \<Rightarrow> tcp_glob \<Rightarrow> tcp_glob" where
  "memp_free a s = s\<lparr>freed := freed s @ [a]\<rparr>"

subsection \<open>tcp_state_is_active\<close>

fun tcp_state_is_active :: "tcp_state \<Rightarrow> bool" where
  "tcp_state_is_active SYN_SENT = True"
| "tcp_state_is_active SYN_RCVD = True"
| "tcp_state_is_active ESTABLISHED = True"
| "tcp_state_is_active FIN_WAIT_1 = True"
| "tcp_state_is_active FIN_WAIT_2 = True"
| "tcp_state_is_active CLOSE_WAIT = True"
| "tcp_state_is_active CLOSING = True"
| "tcp_state_is_active LAST_ACK = True"
| "tcp_state_is_active _ = False"

subsection \<open>tcp_reg and tcp_rmv\<close>

definition tcp_reg :: "pcb_list \<Rightarrow> addr \<Rightarrow> tcp_glob \<Rightarrow> tcp_glob" where
  "tcp_reg l npcb s =
     (let s1 = upd_pcb npcb (\<lambda>p. p\<lparr>pcb_next := get_head l s\<rparr>) s;
          s2 = set_head l (Some npcb) s1
      in log_event Ev_timer_needed s2)"

text \<open>The search of \<open>tcp_rmv\<close> for the PCB whose \<open>next\<close> is \<open>npcb\<close>; it unlinks and stops.\<close>

partial_function (option) tcp_rmv_loop ::
  "addr \<Rightarrow> addr option \<Rightarrow> tcp_glob \<Rightarrow> tcp_glob option" where
  "tcp_rmv_loop npcb tcp_tmp_pcb s =
     (case tcp_tmp_pcb of
        None \<Rightarrow> Some s
      | Some t \<Rightarrow>
          if pcb_next (pcbs s t) = Some npcb
          then Some (upd_pcb t (\<lambda>p. p\<lparr>pcb_next := pcb_next (pcbs s npcb)\<rparr>) s)
          else tcp_rmv_loop npcb (pcb_next (pcbs s t)) s)"

definition tcp_rmv :: "pcb_list \<Rightarrow> addr \<Rightarrow> tcp_glob \<Rightarrow> tcp_glob option" where
  "tcp_rmv l npcb s =
     do {
       s1 \<leftarrow> (if get_head l s = Some npcb
              then Some (set_head l (pcb_next (pcbs s npcb)) s)
              else tcp_rmv_loop npcb (get_head l s) s);
       Some (upd_pcb npcb (\<lambda>p. p\<lparr>pcb_next := None\<rparr>) s1)
     }"

subsection \<open>The safe iterator\<close>

definition tcp_iter_start :: "addr option \<Rightarrow> tcp_iter" where
  "tcp_iter_start pcblist = \<lparr>current = pcblist, prev = None, next_is_current = True\<rparr>"

text \<open>
  \<open>tcp_iter_next\<close> returns the new iterator and the PCB it delivers. Advancing from a NULL
  \<open>current\<close> dereferences NULL: no result.
\<close>

definition tcp_iter_next :: "(addr \<Rightarrow> tcp_pcb) \<Rightarrow> tcp_iter \<Rightarrow> (addr option \<times> tcp_iter) option" where
  "tcp_iter_next h it =
     (if next_is_current it
      then Some (current it, it\<lparr>next_is_current := False\<rparr>)
      else (case current it of
              None \<Rightarrow> None
            | Some c \<Rightarrow> Some (pcb_next (h c), it\<lparr>prev := current it, current := pcb_next (h c)\<rparr>)))"

text \<open>The search of \<open>tcp_iter_will_remove\<close> for the predecessor of \<open>pcb\<close>.\<close>

partial_function (option) tcp_iter_prev_prev ::
  "(addr \<Rightarrow> tcp_pcb) \<Rightarrow> addr \<Rightarrow> addr option \<Rightarrow> addr option \<Rightarrow> addr option option" where
  "tcp_iter_prev_prev h pcb ipcb prev_prev =
     (case ipcb of
        None \<Rightarrow> Some prev_prev
      | Some i \<Rightarrow>
          if i = pcb then Some prev_prev
          else tcp_iter_prev_prev h pcb (pcb_next (h i)) (Some i))"

definition tcp_iter_will_remove ::
  "(addr \<Rightarrow> tcp_pcb) \<Rightarrow> tcp_iter \<Rightarrow> addr \<Rightarrow> addr option \<Rightarrow> tcp_iter option" where
  "tcp_iter_will_remove h it pcb pcblist =
     (case current it of
        None \<Rightarrow> Some it
      | Some c \<Rightarrow>
          if pcb = c
          then Some (it\<lparr>current := pcb_next (h c), next_is_current := True\<rparr>)
          else if Some pcb = prev it
          then do {
                 prev_prev \<leftarrow> tcp_iter_prev_prev h pcb pcblist None;
                 Some (it\<lparr>prev := prev_prev\<rparr>)
               }
          else Some it)"

definition tcp_iter_will_prepend :: "tcp_iter \<Rightarrow> addr \<Rightarrow> addr option \<Rightarrow> tcp_iter" where
  "tcp_iter_will_prepend it pcb pcblist =
     (if pcblist \<noteq> None \<and> pcblist = current it then it\<lparr>prev := Some pcb\<rparr> else it)"

subsection \<open>The listen backlog\<close>

definition tcp_backlog_delayed_internal :: "addr \<Rightarrow> tcp_glob \<Rightarrow> tcp_glob" where
  "tcp_backlog_delayed_internal pcb s =
     (case listener (pcbs s pcb) of
        None \<Rightarrow> s
      | Some l \<Rightarrow>
          if TF_BACKLOGPEND \<notin> flags (pcbs s pcb)
          then upd_pcb pcb (\<lambda>p. p\<lparr>flags := insert TF_BACKLOGPEND (flags p)\<rparr>)
                 (upd_pcb l (\<lambda>p. p\<lparr>accepts_pending := accepts_pending p + 1\<rparr>) s)
          else s)"

definition tcp_backlog_accepted_internal :: "addr \<Rightarrow> tcp_glob \<Rightarrow> tcp_glob" where
  "tcp_backlog_accepted_internal pcb s =
     (case listener (pcbs s pcb) of
        None \<Rightarrow> s
      | Some l \<Rightarrow>
          if TF_BACKLOGPEND \<in> flags (pcbs s pcb)
          then upd_pcb pcb (\<lambda>p. p\<lparr>flags := flags p - {TF_BACKLOGPEND}\<rparr>)
                 (upd_pcb l (\<lambda>p. p\<lparr>accepts_pending := accepts_pending p - 1\<rparr>) s)
          else s)"

subsection \<open>tcp_pcb_purge, tcp_report_err, tcp_pcb_free, tcp_move_to_time_wait\<close>

text \<open>\<open>tcp_segs_free\<close> gives every segment of the chain back to the pool.\<close>

fun tcp_segs_free :: "nat list \<Rightarrow> tcp_glob \<Rightarrow> tcp_glob" where
  "tcp_segs_free [] s = s"
| "tcp_segs_free (seg # rest) s = tcp_segs_free rest (s\<lparr>freed_segs := freed_segs s @ [seg]\<rparr>)"

definition tcp_pcb_purge :: "addr \<Rightarrow> tcp_glob \<Rightarrow> tcp_glob" where
  "tcp_pcb_purge pcb s =
     (let s1 = tcp_backlog_accepted_internal pcb s;
          s2 = upd_pcb pcb (\<lambda>p. p\<lparr>rtime := - 1\<rparr>) s1;
          s3 = tcp_segs_free (sndq (pcbs s2 pcb)) s2
      in upd_pcb pcb (\<lambda>p. p\<lparr>sndq := [], sndq_last := None, sndq_next := None\<rparr>) s3)"

definition tcp_report_err :: "addr \<Rightarrow> err_t \<Rightarrow> tcp_glob \<Rightarrow> tcp_glob" where
  "tcp_report_err pcb err s =
     (if TF_NOUSER \<notin> flags (pcbs s pcb)
      then (let s1 = upd_pcb pcb (\<lambda>p. p\<lparr>flags := insert TF_NOUSER (flags p)\<rparr>) s
            in if errf (pcbs s1 pcb) \<noteq> None then log_event (Ev_errf pcb err) s1 else s1)
      else s)"

definition tcp_pcb_free ::
  "tcp_ext \<Rightarrow> addr \<Rightarrow> bool \<Rightarrow> addr option \<Rightarrow> tcp_glob \<Rightarrow> tcp_glob option" where
  "tcp_pcb_free ext pcb send_rst prv s =
     do {
       let s0 = (if tcp_input_pcb s = Some pcb then s\<lparr>tcp_input_pcb := None\<rparr> else s);
       s1 \<leftarrow>
         (if state (pcbs s0 pcb) = CLOSED
          then (if local_port (pcbs s0 pcb) \<noteq> 0 then tcp_rmv L_bound pcb s0 else Some s0)
          else if tcp_state_is_active (state (pcbs s0 pcb))
          then do {
                 let sa = (if TF_ACK_DELAY \<in> flags (pcbs s0 pcb)
                           then tcp_output ext pcb
                                  (upd_pcb pcb (\<lambda>p. p\<lparr>flags := insert TF_ACK_NOW (flags p)\<rparr>) s0)
                           else s0);
                 let sb = (if send_rst then tcp_rst pcb sa else sa);
                 it \<leftarrow> tcp_iter_will_remove (pcbs sb) (tcp_conn_iter sb) pcb (tcp_active_pcbs sb);
                 let sc = sb\<lparr>tcp_conn_iter := it\<rparr>;
                 sd \<leftarrow> (case prv of
                         Some pr \<Rightarrow> Some (upd_pcb pr (\<lambda>p. p\<lparr>pcb_next := pcb_next (pcbs sc pcb)\<rparr>) sc)
                       | None \<Rightarrow> tcp_rmv L_active pcb sc);
                 Some (tcp_pcb_purge pcb sd)
               }
          else if state (pcbs s0 pcb) = TIME_WAIT
          then do {
                 it \<leftarrow> tcp_iter_will_remove (pcbs s0) (tcp_conn_iter s0) pcb (tcp_tw_pcbs s0);
                 tcp_rmv L_tw pcb (s0\<lparr>tcp_conn_iter := it\<rparr>)
               }
          else Some s0);
       Some (memp_free pcb s1)
     }"

definition tcp_move_to_time_wait :: "addr \<Rightarrow> tcp_glob \<Rightarrow> tcp_glob option" where
  "tcp_move_to_time_wait pcb s =
     do {
       it \<leftarrow> tcp_iter_will_remove (pcbs s) (tcp_conn_iter s) pcb (tcp_active_pcbs s);
       s1 \<leftarrow> tcp_rmv L_active pcb (s\<lparr>tcp_conn_iter := it\<rparr>);
       let s2 = tcp_pcb_purge pcb s1;
       let s3 = upd_pcb pcb (\<lambda>p. p\<lparr>state := TIME_WAIT\<rparr>) s2;
       let s4 = s3\<lparr>tcp_conn_iter := tcp_iter_will_prepend (tcp_conn_iter s3) pcb (tcp_tw_pcbs s3)\<rparr>;
       Some (tcp_reg L_tw pcb s4)
     }"

subsection \<open>tcp_kill_prio\<close>

text \<open>
  The scan of \<open>tcp_kill_prio\<close> over the active list: \<open>inactivity\<close>, \<open>inactive\<close> and
  \<open>mprio\<close> are the locals of the C function; the comparisons are unsigned.
\<close>

partial_function (option) tcp_kill_prio_loop ::
  "(addr \<Rightarrow> tcp_pcb) \<Rightarrow> u32_t \<Rightarrow> addr option \<Rightarrow> u32_t \<Rightarrow> addr option \<Rightarrow> u8_t \<Rightarrow> addr option option" where
  "tcp_kill_prio_loop h ticks pcb inactivity inactive mprio =
     (case pcb of
        None \<Rightarrow> Some inactive
      | Some a \<Rightarrow>
          if prio (h a) \<le> mprio \<and> inactivity \<le> ticks - tmr (h a)
          then tcp_kill_prio_loop h ticks (pcb_next (h a)) (ticks - tmr (h a)) (Some a) (prio (h a))
          else tcp_kill_prio_loop h ticks (pcb_next (h a)) inactivity inactive mprio)"

definition tcp_kill_prio :: "tcp_opts \<Rightarrow> tcp_ext \<Rightarrow> u8_t \<Rightarrow> tcp_glob \<Rightarrow> tcp_glob option" where
  "tcp_kill_prio cfg ext prio_arg s =
     do {
       let mprio = min (TCP_PRIO_MAX cfg) prio_arg;
       inactive \<leftarrow> tcp_kill_prio_loop (pcbs s) (tcp_ticks s) (tcp_active_pcbs s) 0 None mprio;
       (case inactive of
          None \<Rightarrow> Some s
        | Some a \<Rightarrow> tcp_pcb_free ext a True None (tcp_report_err a ERR_ABRT s))
     }"

subsection \<open>tcp_new_port\<close>

definition TCP_LOCAL_PORT_RANGE_START :: u16_t where
  "TCP_LOCAL_PORT_RANGE_START = 0xc000"

definition TCP_LOCAL_PORT_RANGE_END :: u16_t where
  "TCP_LOCAL_PORT_RANGE_END = 0xffff"

text \<open>The inner loop: is \<open>port\<close> the local port of a PCB of the list that starts at \<open>pcb\<close>?\<close>

partial_function (option) tcp_port_in_list ::
  "(addr \<Rightarrow> tcp_pcb) \<Rightarrow> addr option \<Rightarrow> u16_t \<Rightarrow> bool option" where
  "tcp_port_in_list h pcb port =
     (case pcb of
        None \<Rightarrow> Some False
      | Some a \<Rightarrow>
          if local_port (h a) = port then Some True
          else tcp_port_in_list h (pcb_next (h a)) port)"

text \<open>The outer loop, over the lists of \<open>tcp_pcb_lists\<close> in their order.\<close>

fun tcp_port_in_lists :: "pcb_list list \<Rightarrow> u16_t \<Rightarrow> tcp_glob \<Rightarrow> bool option" where
  "tcp_port_in_lists [] port s = Some False"
| "tcp_port_in_lists (l # ls) port s =
     do {
       hit \<leftarrow> tcp_port_in_list (pcbs s) (get_head l s) port;
       if hit then Some True else tcp_port_in_lists ls port s
     }"

text \<open>
  One round from the label \<open>again\<close>: advance the cursor (wrapping at the end of the range),
  scan the lists, and on a hit count it in \<open>n\<close> and go round again, or give up with 0.
\<close>

partial_function (option) tcp_new_port_again :: "u16_t \<Rightarrow> tcp_glob \<Rightarrow> (u16_t \<times> tcp_glob) option" where
  "tcp_new_port_again n s =
     (let s1 = s\<lparr>tcp_port := (if tcp_port s = TCP_LOCAL_PORT_RANGE_END
                               then TCP_LOCAL_PORT_RANGE_START else tcp_port s + 1)\<rparr>
      in do {
           hit \<leftarrow> tcp_port_in_lists tcp_pcb_lists (tcp_port s1) s1;
           if hit
           then (if unat TCP_LOCAL_PORT_RANGE_END - unat TCP_LOCAL_PORT_RANGE_START < unat (n + 1)
                 then Some (0, s1)
                 else tcp_new_port_again (n + 1) s1)
           else Some (tcp_port s1, s1)
         })"

definition tcp_new_port :: "tcp_glob \<Rightarrow> (u16_t \<times> tcp_glob) option" where
  "tcp_new_port s = tcp_new_port_again 0 s"

subsection \<open>tcp_bind\<close>

text \<open>
  Modelled from the spec: the macros of lwip/ip_addr.h and lwip/ip.h on the IP version of a
  PCB, which are not among the sources. The version of a PCB is the version of its local
  address.
\<close>

definition PCB_ISIPV6 :: "tcp_pcb \<Rightarrow> bool" where
  "PCB_ISIPV6 p = IP_IS_V6_VAL (local_ip p)"

definition IP_ADDR_PCB_VERSION_MATCH :: "tcp_pcb \<Rightarrow> ip_addr option \<Rightarrow> bool" where
  "IP_ADDR_PCB_VERSION_MATCH p ipaddr = (PCB_ISIPV6 p = IP_IS_V6 ipaddr)"

definition IP_PCB_IPVER_EQ :: "tcp_pcb \<Rightarrow> tcp_pcb \<Rightarrow> bool" where
  "IP_PCB_IPVER_EQ p q = (PCB_ISIPV6 p = PCB_ISIPV6 q)"

text \<open>The test of \<open>tcp_bind\<close> on one PCB \<open>c\<close> of a list: does it hold the address?\<close>

definition tcp_bind_conflict :: "tcp_pcb \<Rightarrow> ip_addr option \<Rightarrow> u16_t \<Rightarrow> tcp_pcb \<Rightarrow> bool" where
  "tcp_bind_conflict p ipaddr port c =
     (local_port c = port \<and>
      (SOF_REUSEADDR \<notin> so_options p \<or> SOF_REUSEADDR \<notin> so_options c) \<and>
      IP_PCB_IPVER_EQ p c \<and>
      (ip_addr_isany (Some (local_ip c)) \<or> ip_addr_isany ipaddr \<or>
       (case ipaddr of None \<Rightarrow> False | Some ip \<Rightarrow> ip_addr_cmp (local_ip c) ip)))"

partial_function (option) tcp_bind_scan_list ::
  "(addr \<Rightarrow> tcp_pcb) \<Rightarrow> addr option \<Rightarrow> tcp_pcb \<Rightarrow> ip_addr option \<Rightarrow> u16_t \<Rightarrow> bool option" where
  "tcp_bind_scan_list h cpcb p ipaddr port =
     (case cpcb of
        None \<Rightarrow> Some False
      | Some c \<Rightarrow>
          if tcp_bind_conflict p ipaddr port (h c) then Some True
          else tcp_bind_scan_list h (pcb_next (h c)) p ipaddr port)"

fun tcp_bind_scan :: "pcb_list list \<Rightarrow> addr \<Rightarrow> ip_addr option \<Rightarrow> u16_t \<Rightarrow> tcp_glob \<Rightarrow> bool option" where
  "tcp_bind_scan [] pcb ipaddr port s = Some False"
| "tcp_bind_scan (l # ls) pcb ipaddr port s =
     do {
       hit \<leftarrow> tcp_bind_scan_list (pcbs s) (get_head l s) (pcbs s pcb) ipaddr port;
       if hit then Some True else tcp_bind_scan ls pcb ipaddr port s
     }"

definition NUM_TCP_PCB_LISTS :: nat where "NUM_TCP_PCB_LISTS = 4"
definition NUM_TCP_PCB_LISTS_NO_TIME_WAIT :: nat where "NUM_TCP_PCB_LISTS_NO_TIME_WAIT = 3"
definition START_TCP_PCB_LISTS_CONNECTION :: nat where "START_TCP_PCB_LISTS_CONNECTION = 2"

definition tcp_bind :: "addr \<Rightarrow> ip_addr option \<Rightarrow> u16_t \<Rightarrow> tcp_glob \<Rightarrow> (err_t \<times> tcp_glob) option" where
  "tcp_bind pcb ipaddr port s =
     (if \<not> IP_ADDR_PCB_VERSION_MATCH (pcbs s pcb) ipaddr then Some (ERR_VAL, s)
      else
        let max_pcb_list = (if SOF_REUSEADDR \<in> so_options (pcbs s pcb)
                            then NUM_TCP_PCB_LISTS_NO_TIME_WAIT else NUM_TCP_PCB_LISTS)
        in do {
             (port1, early, s1) \<leftarrow>
               (if port = 0
                then do {
                       (np, s') \<leftarrow> tcp_new_port s;
                       Some (np, if np = 0 then Some ERR_BUF else None, s')
                     }
                else do {
                       hit \<leftarrow> tcp_bind_scan (take max_pcb_list tcp_pcb_lists) pcb ipaddr port s;
                       Some (port, if hit then Some ERR_USE else None, s)
                     });
             (case early of
                Some e \<Rightarrow> Some (e, s1)
              | None \<Rightarrow>
                  let s2 = (if \<not> ip_addr_isany ipaddr
                            then (case ipaddr of
                                    None \<Rightarrow> s1
                                  | Some ip \<Rightarrow> upd_pcb pcb (\<lambda>p. p\<lparr>local_ip := ip\<rparr>) s1)
                            else s1);
                      s3 = upd_pcb pcb (\<lambda>p. p\<lparr>local_port := port1\<rparr>) s2
                  in Some (ERR_OK, tcp_reg L_bound pcb s3))
           })"

subsection \<open>tcp_listen_with_backlog and tcp_listen_dual_with_backlog\<close>

definition TCPWND_MIN16 :: "nat \<Rightarrow> tcpwnd_size_t" where
  "TCPWND_MIN16 x = of_nat (min x 0xFFFF)"

definition tcp_backlog_set :: "addr \<Rightarrow> u8_t \<Rightarrow> tcp_glob \<Rightarrow> tcp_glob" where
  "tcp_backlog_set lpcb new_backlog s =
     upd_pcb lpcb (\<lambda>p. p\<lparr>backlog := (if new_backlog \<noteq> 0 then new_backlog else 1)\<rparr>) s"

partial_function (option) tcp_listen_scan ::
  "(addr \<Rightarrow> tcp_pcb) \<Rightarrow> addr option \<Rightarrow> tcp_pcb \<Rightarrow> bool option" where
  "tcp_listen_scan h other_lpcb lp =
     (case other_lpcb of
        None \<Rightarrow> Some False
      | Some o_lpcb \<Rightarrow>
          if IP_PCB_IPVER_EQ (h o_lpcb) lp \<and> local_port (h o_lpcb) = local_port lp \<and>
             ip_addr_cmp (local_ip (h o_lpcb)) (local_ip lp)
          then Some True
          else tcp_listen_scan h (pcb_next (h o_lpcb)) lp)"

definition tcp_listen_with_backlog ::
  "tcp_opts \<Rightarrow> addr \<Rightarrow> u8_t \<Rightarrow> tcp_glob \<Rightarrow> (err_t \<times> tcp_glob) option" where
  "tcp_listen_with_backlog cfg lpcb backlog_arg s =
     do {
       used \<leftarrow> (if SOF_REUSEADDR \<in> so_options (pcbs s lpcb)
                then tcp_listen_scan (pcbs s) (tcp_listen_pcbs s) (pcbs s lpcb)
                else Some False);
       if used then Some (ERR_USE, s)
       else do {
              let s1 = upd_pcb lpcb (\<lambda>p. p\<lparr>state := LISTEN, accept_any_ip_version := 0\<rparr>) s;
              s2 \<leftarrow> (if local_port (pcbs s1 lpcb) \<noteq> 0 then tcp_rmv L_bound lpcb s1 else Some s1);
              let s3 = upd_pcb lpcb (\<lambda>p. p\<lparr>accepts_pending := 0\<rparr>) s2;
              let s4 = tcp_backlog_set lpcb backlog_arg s3;
              let s5 = upd_pcb lpcb (\<lambda>p. p\<lparr>initial_rcv_wnd := TCPWND_MIN16 (TCP_WND cfg)\<rparr>) s4;
              Some (ERR_OK, tcp_reg L_listen lpcb s5)
            }
     }"

text \<open>
  \<open>tcp_listen_dual_with_backlog\<close> is declared to return \<open>err_t\<close> and its two \<open>return\<close>
  statements return pointers: \<open>NULL\<close> and \<open>lpcb\<close>. The conversion of a pointer to the
  8-bit \<open>err_t\<close> keeps the low bits of the address; NULL becomes 0.
\<close>

definition err_of_pointer :: "addr option \<Rightarrow> err_t" where
  "err_of_pointer p = (case p of None \<Rightarrow> 0 | Some a \<Rightarrow> of_nat a)"

definition tcp_listen_dual_with_backlog ::
  "tcp_opts \<Rightarrow> addr \<Rightarrow> u8_t \<Rightarrow> tcp_glob \<Rightarrow> (err_t \<times> tcp_glob) option" where
  "tcp_listen_dual_with_backlog cfg lpcb backlog_arg s =
     do {
       used \<leftarrow> (if local_port (pcbs s lpcb) \<noteq> 0
                then tcp_port_in_list (pcbs s) (tcp_listen_pcbs s) (local_port (pcbs s lpcb))
                else Some False);
       if used then Some (err_of_pointer None, s)
       else do {
              (err, s1) \<leftarrow> tcp_listen_with_backlog cfg lpcb backlog_arg s;
              let s2 = (if err = ERR_OK \<and> ip_addr_isany (Some (local_ip (pcbs s1 lpcb)))
                        then upd_pcb lpcb (\<lambda>p. p\<lparr>accept_any_ip_version := 1\<rparr>) s1
                        else s1);
              Some (err_of_pointer (Some lpcb), s2)
            }
     }"

subsection \<open>tcp_connect\<close>

definition tcp_next_iss :: "tcp_glob \<Rightarrow> u32_t \<times> tcp_glob" where
  "tcp_next_iss s = (iss s + tcp_ticks s, s\<lparr>iss := iss s + tcp_ticks s\<rparr>)"

definition INITIAL_MSS :: "tcp_opts \<Rightarrow> u16_t" where
  "INITIAL_MSS cfg = (if 536 < TCP_MSS cfg then 536 else of_nat (TCP_MSS cfg))"

text \<open>The test of \<open>tcp_connect\<close> (with SO_REUSEADDR) on one PCB of the active or tw list.\<close>

definition tcp_connect_conflict :: "tcp_pcb \<Rightarrow> ip_addr \<Rightarrow> u16_t \<Rightarrow> tcp_pcb \<Rightarrow> bool" where
  "tcp_connect_conflict p ipaddr port c =
     (local_port c = local_port p \<and> remote_port c = port \<and> IP_PCB_IPVER_EQ c p \<and>
      ip_addr_cmp (local_ip c) (local_ip p) \<and> ip_addr_cmp (remote_ip c) ipaddr)"

partial_function (option) tcp_connect_scan_list ::
  "(addr \<Rightarrow> tcp_pcb) \<Rightarrow> addr option \<Rightarrow> tcp_pcb \<Rightarrow> ip_addr \<Rightarrow> u16_t \<Rightarrow> bool option" where
  "tcp_connect_scan_list h cpcb p ipaddr port =
     (case cpcb of
        None \<Rightarrow> Some False
      | Some c \<Rightarrow>
          if tcp_connect_conflict p ipaddr port (h c) then Some True
          else tcp_connect_scan_list h (pcb_next (h c)) p ipaddr port)"

fun tcp_connect_scan :: "pcb_list list \<Rightarrow> addr \<Rightarrow> ip_addr \<Rightarrow> u16_t \<Rightarrow> tcp_glob \<Rightarrow> bool option" where
  "tcp_connect_scan [] pcb ipaddr port s = Some False"
| "tcp_connect_scan (l # ls) pcb ipaddr port s =
     do {
       hit \<leftarrow> tcp_connect_scan_list (pcbs s) (get_head l s) (pcbs s pcb) ipaddr port;
       if hit then Some True else tcp_connect_scan ls pcb ipaddr port s
     }"

text \<open>
  The end of \<open>tcp_connect\<close>, from \<open>iss = tcp_next_iss()\<close> on: the fields are set, the SYN is
  handed to \<open>tcp_enqueue_flags\<close>, and only when that returns \<open>ERR_OK\<close> does the PCB change
  its state and its list.
\<close>

definition tcp_connect_syn ::
  "tcp_opts \<Rightarrow> tcp_ext \<Rightarrow> addr \<Rightarrow> nat option \<Rightarrow> u16_t \<Rightarrow> tcp_glob \<Rightarrow> (err_t \<times> tcp_glob) option" where
  "tcp_connect_syn cfg ext pcb connected_fn old_local_port s =
     (let (i, s1) = tcp_next_iss s;
          s2 = upd_pcb pcb (\<lambda>p. p\<lparr>rcv_nxt := 0, snd_nxt := i, lastack := i - 1, snd_lbb := i - 1,
                 rcv_wnd := TCPWND_MIN16 (TCP_WND cfg), rcv_ann_wnd := TCPWND_MIN16 (TCP_WND cfg),
                 rcv_ann_right_edge := 0, snd_wnd := of_nat (TCP_WND cfg),
                 mss := INITIAL_MSS cfg\<rparr>) s1;
          s3 = upd_pcb pcb (\<lambda>p. p\<lparr>mss := ext_eff_send_mss ext (mss p) (local_ip p) (remote_ip p)
                                        (PCB_ISIPV6 p)\<rparr>) s2;
          s4 = upd_pcb pcb (\<lambda>p. p\<lparr>cwnd := 1, ssthresh := of_nat (TCP_WND cfg),
                                  connected := connected_fn\<rparr>) s3;
          ret = fst (ext_enqueue_flags ext (pcbs s4 pcb));
          s5 = upd_pcb pcb (\<lambda>p. snd (ext_enqueue_flags ext p)) (log_event (Ev_enqueue_syn pcb) s4)
      in if ret = ERR_OK
         then do {
                let s6 = upd_pcb pcb (\<lambda>p. p\<lparr>state := SYN_SENT\<rparr>) s5;
                s7 \<leftarrow> (if old_local_port \<noteq> 0 then tcp_rmv L_bound pcb s6 else Some s6);
                let s8 = s7\<lparr>tcp_conn_iter :=
                              tcp_iter_will_prepend (tcp_conn_iter s7) pcb (tcp_active_pcbs s7)\<rparr>;
                let s9 = tcp_reg L_active pcb s8;
                Some (ret, tcp_output ext pcb s9)
              }
         else Some (ret, s5))"

definition tcp_connect ::
  "tcp_opts \<Rightarrow> tcp_ext \<Rightarrow> addr \<Rightarrow> ip_addr option \<Rightarrow> u16_t \<Rightarrow> nat option \<Rightarrow> tcp_glob
     \<Rightarrow> (err_t \<times> tcp_glob) option" where
  "tcp_connect cfg ext pcb ipaddr port connected_fn s =
     (if \<not> IP_ADDR_PCB_VERSION_MATCH (pcbs s pcb) ipaddr then Some (ERR_VAL, s)
      else
        (case ipaddr of
           None \<Rightarrow> Some (ERR_VAL, s)
         | Some ip \<Rightarrow>
             let s1 = upd_pcb pcb (\<lambda>p. p\<lparr>remote_ip := ip\<rparr>) s;
                 s2 = upd_pcb pcb (\<lambda>p. p\<lparr>remote_port := port\<rparr>) s1;
                 p2 = pcbs s2 pcb;
                 (netif, lip) = ext_route_get_local_ip ext (PCB_ISIPV6 p2) (local_ip p2) (remote_ip p2)
             in if ip_addr_isany (Some (local_ip p2)) \<and> (netif = None \<or> lip = None)
                then Some (ERR_RTE, s2)
                else
                  let s3 = (if ip_addr_isany (Some (local_ip p2))
                            then (case lip of
                                    None \<Rightarrow> s2
                                  | Some a \<Rightarrow> upd_pcb pcb (\<lambda>p. p\<lparr>local_ip := a\<rparr>) s2)
                            else s2);
                      old_local_port = local_port (pcbs s3 pcb)
                  in if old_local_port = 0
                     then do {
                            (np, s4) \<leftarrow> tcp_new_port s3;
                            let s5 = upd_pcb pcb (\<lambda>p. p\<lparr>local_port := np\<rparr>) s4;
                            if np = 0 then Some (ERR_BUF, s5)
                            else tcp_connect_syn cfg ext pcb connected_fn old_local_port s5
                          }
                     else do {
                            used \<leftarrow> (if SOF_REUSEADDR \<in> so_options (pcbs s3 pcb)
                                     then tcp_connect_scan (drop START_TCP_PCB_LISTS_CONNECTION tcp_pcb_lists)
                                            pcb ip port s3
                                     else Some False);
                            if used then Some (ERR_USE, s3)
                            else tcp_connect_syn cfg ext pcb connected_fn old_local_port s3
                          }))"

subsection \<open>tcp_fasttmr\<close>

definition tcp_ack_now :: "addr \<Rightarrow> tcp_glob \<Rightarrow> tcp_glob" where
  "tcp_ack_now pcb s = upd_pcb pcb (\<lambda>p. p\<lparr>flags := insert TF_ACK_NOW (flags p)\<rparr>) s"

text \<open>The body of the loop of \<open>tcp_fasttmr\<close> for one PCB.\<close>

definition tcp_fasttmr_pcb :: "tcp_ext \<Rightarrow> addr \<Rightarrow> tcp_glob \<Rightarrow> tcp_glob" where
  "tcp_fasttmr_pcb ext pcb s =
     (if last_timer (pcbs s pcb) \<noteq> tcp_timer_ctr s
      then (let s1 = upd_pcb pcb (\<lambda>p. p\<lparr>last_timer := tcp_timer_ctr s\<rparr>) s
            in if TF_ACK_DELAY \<in> flags (pcbs s1 pcb)
               then upd_pcb pcb (\<lambda>p. p\<lparr>flags := flags p - {TF_ACK_DELAY, TF_ACK_NOW}\<rparr>)
                      (tcp_output ext pcb (tcp_ack_now pcb s1))
               else s1)
      else s)"

partial_function (option) tcp_fasttmr_loop :: "tcp_ext \<Rightarrow> addr option \<Rightarrow> tcp_glob \<Rightarrow> tcp_glob option" where
  "tcp_fasttmr_loop ext pcb s =
     (case pcb of
        None \<Rightarrow> Some s
      | Some a \<Rightarrow>
          (let s1 = tcp_fasttmr_pcb ext a s
           in tcp_fasttmr_loop ext (pcb_next (pcbs s1 a)) s1))"

definition tcp_fasttmr :: "tcp_ext \<Rightarrow> tcp_glob \<Rightarrow> tcp_glob option" where
  "tcp_fasttmr ext s =
     (let s1 = s\<lparr>tcp_timer_ctr := tcp_timer_ctr s + 1\<rparr>
      in tcp_fasttmr_loop ext (tcp_active_pcbs s1) s1)"

subsection \<open>tcp_slowtmr\<close>

definition tcp_backoff :: "u8_t list" where
  "tcp_backoff = [1, 2, 3, 4, 5, 6, 7, 7, 7, 7, 7, 7, 7]"

definition tcp_persist_backoff :: "u8_t list" where
  "tcp_persist_backoff = [3, 6, 12, 24, 48, 96, 120]"

text \<open>
  A read of a table at an index. Past the end of the table the C code reads whatever
  follows the table in memory: \<open>oob\<close> says what.
\<close>

definition table_at :: "(nat \<Rightarrow> u8_t) \<Rightarrow> u8_t list \<Rightarrow> nat \<Rightarrow> u8_t" where
  "table_at oob tab i = (if i < length tab then tab ! i else oob i)"

text \<open>The persist timer of one PCB (\<open>persist_backoff > 0\<close>).\<close>

definition tcp_slowtmr_persist :: "tcp_ext \<Rightarrow> (nat \<Rightarrow> u8_t) \<Rightarrow> addr \<Rightarrow> tcp_glob \<Rightarrow> tcp_glob" where
  "tcp_slowtmr_persist ext oob pcb s =
     (let backoff_cnt = table_at oob tcp_persist_backoff (unat (persist_backoff (pcbs s pcb) - 1));
          s1 = (if persist_cnt (pcbs s pcb) < backoff_cnt
                then upd_pcb pcb (\<lambda>p. p\<lparr>persist_cnt := persist_cnt p + 1\<rparr>) s else s)
      in if backoff_cnt \<le> persist_cnt (pcbs s1 pcb)
         then (let r = fst (ext_zero_window_probe ext (pcbs s1 pcb));
                   s2 = upd_pcb pcb (\<lambda>p. snd (ext_zero_window_probe ext p))
                          (log_event (Ev_zero_window_probe pcb) s1)
               in if r = ERR_OK
                  then (let s3 = upd_pcb pcb (\<lambda>p. p\<lparr>persist_cnt := 0\<rparr>) s2
                        in if unat (persist_backoff (pcbs s3 pcb)) < length tcp_persist_backoff
                           then upd_pcb pcb (\<lambda>p. p\<lparr>persist_backoff := persist_backoff p + 1\<rparr>) s3
                           else s3)
                  else s2)
         else s1)"

text \<open>The retransmission timer of one PCB (\<open>persist_backoff = 0\<close>); signed 16-bit compares.\<close>

definition tcp_slowtmr_rexmit :: "tcp_ext \<Rightarrow> (nat \<Rightarrow> u8_t) \<Rightarrow> addr \<Rightarrow> tcp_glob \<Rightarrow> tcp_glob" where
  "tcp_slowtmr_rexmit ext oob pcb s =
     (let s1 = (if 0 \<le> sint (rtime (pcbs s pcb))
                then upd_pcb pcb (\<lambda>p. p\<lparr>rtime := rtime p + 1\<rparr>) s else s)
      in if sndq (pcbs s1 pcb) \<noteq> [] \<and> sint (rto (pcbs s1 pcb)) \<le> sint (rtime (pcbs s1 pcb))
         then (let s2 = (if state (pcbs s1 pcb) \<noteq> SYN_SENT
                         then upd_pcb pcb (\<lambda>p. p\<lparr>rto := word_of_int
                                ((sint (sa p) div 8 + sint (sv p))
                                   * 2 ^ unat (table_at oob tcp_backoff (unat (nrtx p))))\<rparr>) s1
                         else s1);
                   s3 = upd_pcb pcb (\<lambda>p. p\<lparr>rtime := 0\<rparr>) s2;
                   s4 = upd_pcb pcb (\<lambda>p. p\<lparr>ssthresh := drop_bit 1 (min (cwnd p) (snd_wnd p))\<rparr>) s3;
                   s5 = (if ssthresh (pcbs s4 pcb) < push_bit 1 (mss (pcbs s4 pcb))
                         then upd_pcb pcb (\<lambda>p. p\<lparr>ssthresh := push_bit 1 (mss p)\<rparr>) s4 else s4);
                   s6 = upd_pcb pcb (\<lambda>p. p\<lparr>cwnd := mss p\<rparr>) s5
               in upd_pcb pcb (ext_rexmit_rto ext) (log_event (Ev_rexmit_rto pcb) s6))
         else s1)"

text \<open>
  The body of the first loop of \<open>tcp_slowtmr\<close> for one active PCB that was not yet
  processed in this tick. \<open>pcb_remove\<close> and \<open>pcb_reset\<close> are the counters of the C code.
\<close>

definition tcp_slowtmr_active_pcb ::
  "tcp_opts \<Rightarrow> tcp_ext \<Rightarrow> (nat \<Rightarrow> u8_t) \<Rightarrow> addr \<Rightarrow> tcp_glob \<Rightarrow> tcp_glob option" where
  "tcp_slowtmr_active_pcb cfg ext oob pcb s =
     (let s0 = upd_pcb pcb (\<lambda>p. p\<lparr>last_timer := tcp_timer_ctr s\<rparr>) s;
          (rm1, s1) =
            (if state (pcbs s0 pcb) = SYN_SENT \<and> nrtx (pcbs s0 pcb) = TCP_SYNMAXRTX cfg then (1::nat, s0)
             else if nrtx (pcbs s0 pcb) = TCP_MAXRTX cfg then (1, s0)
             else if 0 < persist_backoff (pcbs s0 pcb) then (0, tcp_slowtmr_persist ext oob pcb s0)
             else (0, tcp_slowtmr_rexmit ext oob pcb s0));
          age = unat (tcp_ticks s1 - tmr (pcbs s1 pcb));
          rm2 = (if state (pcbs s1 pcb) = FIN_WAIT_2 \<and> TF_NOUSER \<in> flags (pcbs s1 pcb) \<and>
                    TCP_FIN_WAIT_TIMEOUT cfg div TCP_SLOW_INTERVAL cfg < age
                 then rm1 + 1 else rm1);
          keep = (SOF_KEEPALIVE \<in> so_options (pcbs s1 pcb) \<and>
                  (state (pcbs s1 pcb) = ESTABLISHED \<or> state (pcbs s1 pcb) = CLOSE_WAIT));
          p1 = pcbs s1 pcb;
          keep_timeout = (keep \<and>
                  unat (keep_idle p1 + keep_cnt p1 * keep_intvl p1) div TCP_SLOW_INTERVAL cfg < age);
          keep_probe = (keep \<and> \<not> keep_timeout \<and>
                  unat (keep_idle p1 + ucast (keep_cnt_sent p1) * keep_intvl p1)
                    div TCP_SLOW_INTERVAL cfg < age);
          rm3 = (if keep_timeout then rm2 + 1 else rm2);
          pcb_reset = (if keep_timeout then 1 else 0::nat);
          s2 = (if keep_probe
                then (let r = fst (ext_keepalive ext (pcbs s1 pcb));
                          s' = upd_pcb pcb (\<lambda>p. snd (ext_keepalive ext p))
                                 (log_event (Ev_keepalive pcb) s1)
                      in if r = ERR_OK
                         then upd_pcb pcb (\<lambda>p. p\<lparr>keep_cnt_sent := keep_cnt_sent p + 1\<rparr>) s'
                         else s')
                else s1);
          age2 = unat (tcp_ticks s2 - tmr (pcbs s2 pcb));
          rm4 = (if state (pcbs s2 pcb) = SYN_RCVD \<and>
                    TCP_SYN_RCVD_TIMEOUT cfg div TCP_SLOW_INTERVAL cfg < age2
                 then rm3 + 1 else rm3);
          pcb_remove = (if state (pcbs s2 pcb) = LAST_ACK \<and>
                    2 * TCP_MSL cfg div TCP_SLOW_INTERVAL cfg < age2
                 then rm4 + 1 else rm4)
      in if pcb_remove \<noteq> 0
         then (let s3 = upd_pcb pcb (\<lambda>p. p\<lparr>flags := flags p - {TF_ACK_DELAY}\<rparr>) s2;
                   s4 = tcp_report_err pcb ERR_ABRT s3
               in tcp_pcb_free ext pcb (pcb_reset \<noteq> 0) (prev (tcp_conn_iter s4)) s4)
         else Some (tcp_output ext pcb s2))"

partial_function (option) tcp_slowtmr_active_loop ::
  "tcp_opts \<Rightarrow> tcp_ext \<Rightarrow> (nat \<Rightarrow> u8_t) \<Rightarrow> tcp_glob \<Rightarrow> tcp_glob option" where
  "tcp_slowtmr_active_loop cfg ext oob s =
     (case tcp_iter_next (pcbs s) (tcp_conn_iter s) of
        None \<Rightarrow> None
      | Some (pcb, it) \<Rightarrow>
          (case pcb of
             None \<Rightarrow> Some (s\<lparr>tcp_conn_iter := it\<rparr>)
           | Some a \<Rightarrow>
               if last_timer (pcbs s a) = tcp_timer_ctr s
               then tcp_slowtmr_active_loop cfg ext oob (s\<lparr>tcp_conn_iter := it\<rparr>)
               else (case tcp_slowtmr_active_pcb cfg ext oob a (s\<lparr>tcp_conn_iter := it\<rparr>) of
                       None \<Rightarrow> None
                     | Some s1 \<Rightarrow> tcp_slowtmr_active_loop cfg ext oob s1)))"

text \<open>The body of the second loop, for one PCB of the tw list.\<close>

definition tcp_slowtmr_tw_pcb :: "tcp_opts \<Rightarrow> tcp_ext \<Rightarrow> addr \<Rightarrow> tcp_glob \<Rightarrow> tcp_glob option" where
  "tcp_slowtmr_tw_pcb cfg ext pcb s =
     (let pcb_remove = (if 2 * TCP_MSL cfg div TCP_SLOW_INTERVAL cfg
                             < unat (tcp_ticks s - tmr (pcbs s pcb))
                        then 1 else 0::nat)
      in if pcb_remove \<noteq> 0
         then tcp_pcb_free ext pcb False (prev (tcp_conn_iter s)) s
         else Some s)"

partial_function (option) tcp_slowtmr_tw_loop :: "tcp_opts \<Rightarrow> tcp_ext \<Rightarrow> tcp_glob \<Rightarrow> tcp_glob option" where
  "tcp_slowtmr_tw_loop cfg ext s =
     (case tcp_iter_next (pcbs s) (tcp_conn_iter s) of
        None \<Rightarrow> None
      | Some (pcb, it) \<Rightarrow>
          (case pcb of
             None \<Rightarrow> Some (s\<lparr>tcp_conn_iter := it\<rparr>)
           | Some a \<Rightarrow>
               (case tcp_slowtmr_tw_pcb cfg ext a (s\<lparr>tcp_conn_iter := it\<rparr>) of
                  None \<Rightarrow> None
                | Some s1 \<Rightarrow> tcp_slowtmr_tw_loop cfg ext s1)))"

definition tcp_slowtmr :: "tcp_opts \<Rightarrow> tcp_ext \<Rightarrow> (nat \<Rightarrow> u8_t) \<Rightarrow> tcp_glob \<Rightarrow> tcp_glob option" where
  "tcp_slowtmr cfg ext oob s =
     do {
       let s1 = s\<lparr>tcp_ticks := tcp_ticks s + 1, tcp_timer_ctr := tcp_timer_ctr s + 1\<rparr>;
       let s2 = s1\<lparr>tcp_conn_iter := tcp_iter_start (tcp_active_pcbs s1)\<rparr>;
       s3 \<leftarrow> tcp_slowtmr_active_loop cfg ext oob s2;
       let s4 = s3\<lparr>tcp_conn_iter := tcp_iter_start (tcp_tw_pcbs s3)\<rparr>;
       tcp_slowtmr_tw_loop cfg ext s4
     }"

definition tcp_tmr :: "tcp_opts \<Rightarrow> tcp_ext \<Rightarrow> (nat \<Rightarrow> u8_t) \<Rightarrow> tcp_glob \<Rightarrow> tcp_glob option" where
  "tcp_tmr cfg ext oob s =
     do {
       s1 \<leftarrow> tcp_fasttmr ext s;
       let s2 = s1\<lparr>tcp_timer := tcp_timer s1 + 1\<rparr>;
       if odd (unat (tcp_timer s2)) then tcp_slowtmr cfg ext oob s2 else Some s2
     }"

subsection \<open>tcp_close_listen\<close>

text \<open>The loop that clears the references to the listener in one list of connection PCBs.\<close>

partial_function (option) tcp_close_listen_loop ::
  "addr \<Rightarrow> addr option \<Rightarrow> tcp_glob \<Rightarrow> tcp_glob option" where
  "tcp_close_listen_loop lpcb pcb s =
     (case pcb of
        None \<Rightarrow> Some s
      | Some a \<Rightarrow>
          (let s1 = (if listener (pcbs s a) = Some lpcb
                     then upd_pcb a (\<lambda>p. p\<lparr>listener := None\<rparr>) s else s)
           in tcp_close_listen_loop lpcb (pcb_next (pcbs s1 a)) s1))"

definition tcp_close_listen :: "addr \<Rightarrow> tcp_glob \<Rightarrow> tcp_glob option" where
  "tcp_close_listen lpcb s =
     do {
       s1 \<leftarrow> (if state (pcbs s lpcb) = LISTEN
              then do {
                     sa \<leftarrow> tcp_close_listen_loop lpcb (tcp_active_pcbs s) s;
                     sb \<leftarrow> tcp_close_listen_loop lpcb (tcp_tw_pcbs sa) sa;
                     tcp_rmv L_listen lpcb sb
                   }
              else if local_port (pcbs s lpcb) \<noteq> 0 then tcp_rmv L_bound lpcb s
              else Some s);
       Some (memp_free lpcb s1)
     }"

section \<open>Example states\<close>

text \<open>A PCB as \<open>memset(pcb, 0, sizeof ...)\<close> leaves it, and the globals at program start.\<close>

definition pcb_zero :: tcp_pcb where
  "pcb_zero = \<lparr>pcb_next = None, state = CLOSED, prio = 0, local_ip = IP4 0, local_port = 0,
     so_options = {}, flags = {}, accepts_pending = 0, backlog = 0, accept_any_ip_version = 0,
     initial_rcv_wnd = 0, remote_ip = IP4 0, remote_port = 0, listener = None, tmr = 0,
     last_timer = 0, nrtx = 0, persist_backoff = 0, persist_cnt = 0, rtime = 0, rto = 0,
     sa = 0, sv = 0, cwnd = 0, snd_wnd = 0, ssthresh = 0, mss = 0, keep_idle = 0,
     keep_intvl = 0, keep_cnt = 0, keep_cnt_sent = 0, sndq = [], sndq_last = None,
     sndq_next = None, rcv_nxt = 0, snd_nxt = 0, lastack = 0, snd_lbb = 0, rcv_wnd = 0,
     rcv_ann_wnd = 0, rcv_ann_right_edge = 0, connected = None, errf = None\<rparr>"

definition glob_init :: tcp_glob where
  "glob_init = \<lparr>pcbs = (\<lambda>a. pcb_zero), tcp_listen_pcbs = None, tcp_bound_pcbs = None,
     tcp_active_pcbs = None, tcp_tw_pcbs = None,
     tcp_conn_iter = \<lparr>current = None, prev = None, next_is_current = False\<rparr>,
     tcp_ticks = 0, tcp_timer = 0, tcp_timer_ctr = 0, tcp_port = TCP_LOCAL_PORT_RANGE_START,
     iss = 6510, tcp_input_pcb = None, freed = [], freed_segs = [], trace = []\<rparr>"

text \<open>The options as lwIP sets them by default.\<close>

definition lwip_opts :: tcp_opts where
  "lwip_opts = \<lparr>TCP_PRIO_MAX = 127, TCP_SYNMAXRTX = 6, TCP_MAXRTX = 12, TCP_MSL = 60000,
     TCP_SLOW_INTERVAL = 500, TCP_FIN_WAIT_TIMEOUT = 20000, TCP_SYN_RCVD_TIMEOUT = 20000,
     TCP_WND = 2144, TCP_MSS = 536\<rparr>"

text \<open>
  A connection PCB at address 1 that came from the listener at address 2: not yet counted
  in the backlog (\<open>backlog_fresh\<close>), and counted (\<open>backlog_pending\<close>).
\<close>

definition backlog_fresh :: tcp_glob where
  "backlog_fresh = glob_init\<lparr>pcbs := (\<lambda>a. pcb_zero)
     (1 := pcb_zero\<lparr>state := SYN_RCVD, listener := Some 2\<rparr>,
      2 := pcb_zero\<lparr>state := LISTEN, backlog := 4\<rparr>),
     tcp_active_pcbs := Some 1, tcp_listen_pcbs := Some 2\<rparr>"

definition backlog_pending :: tcp_glob where
  "backlog_pending = glob_init\<lparr>pcbs := (\<lambda>a. pcb_zero)
     (1 := pcb_zero\<lparr>state := SYN_RCVD, listener := Some 2, flags := {TF_BACKLOGPEND}\<rparr>,
      2 := pcb_zero\<lparr>state := LISTEN, backlog := 4, accepts_pending := 1\<rparr>),
     tcp_active_pcbs := Some 1, tcp_listen_pcbs := Some 2\<rparr>"

text \<open>
  A listener at address 1 on port 80, and a second listen PCB at address 2 that was bound
  to the same port (with SO_REUSEADDR the bind succeeds) and is about to listen.
\<close>

definition listen_dual_ex :: tcp_glob where
  "listen_dual_ex = glob_init\<lparr>pcbs := (\<lambda>a. pcb_zero)
     (1 := pcb_zero\<lparr>state := LISTEN, local_port := 80, backlog := 1,
                    so_options := {SOF_REUSEADDR}\<rparr>,
      2 := pcb_zero\<lparr>state := LISTEN_CLOS, local_port := 80, so_options := {SOF_REUSEADDR}\<rparr>),
     tcp_listen_pcbs := Some 1, tcp_bound_pcbs := Some 2\<rparr>"

text \<open>
  Two established connections at tick 100: the PCB at address 1 has priority 5 and was
  last active at tick 0, the PCB at address 2 has priority 3 and was last active at
  tick 90.
\<close>

definition kill_prio_ex :: tcp_glob where
  "kill_prio_ex = glob_init\<lparr>pcbs := (\<lambda>a. pcb_zero)
     (1 := pcb_zero\<lparr>state := ESTABLISHED, prio := 5, tmr := 0, pcb_next := Some 2\<rparr>,
      2 := pcb_zero\<lparr>state := ESTABLISHED, prio := 3, tmr := 90\<rparr>),
     tcp_active_pcbs := Some 1, tcp_ticks := 100\<rparr>"

text \<open>
  Four active PCBs at the addresses 1 to 4 in a scan that has delivered the third:
  \<open>current\<close> is 3 and \<open>prev\<close> is 2.
\<close>

definition iter_ex4 :: tcp_glob where
  "iter_ex4 = glob_init\<lparr>pcbs := (\<lambda>a. pcb_zero)
     (1 := pcb_zero\<lparr>state := ESTABLISHED, pcb_next := Some 2\<rparr>,
      2 := pcb_zero\<lparr>state := ESTABLISHED, pcb_next := Some 3\<rparr>,
      3 := pcb_zero\<lparr>state := ESTABLISHED, pcb_next := Some 4\<rparr>,
      4 := pcb_zero\<lparr>state := ESTABLISHED\<rparr>),
     tcp_active_pcbs := Some 1,
     tcp_conn_iter := \<lparr>current = Some 3, prev = Some 2, next_is_current = False\<rparr>\<rparr>"


text \<open>
  Two active PCBs at the addresses 2 and 3, before a scan (\<open>iter_ex2\<close>); and the same
  store after the scan has delivered both and PCB 3 was unlinked as \<open>current\<close>
  (\<open>iter_ex2_unlinked\<close>).
\<close>

definition iter_ex2 :: tcp_glob where
  "iter_ex2 = glob_init\<lparr>pcbs := (\<lambda>a. pcb_zero)
     (2 := pcb_zero\<lparr>state := ESTABLISHED, pcb_next := Some 3\<rparr>,
      3 := pcb_zero\<lparr>state := ESTABLISHED\<rparr>),
     tcp_active_pcbs := Some 2\<rparr>"

definition iter_ex2_unlinked :: tcp_glob where
  "iter_ex2_unlinked = glob_init\<lparr>pcbs := (\<lambda>a. pcb_zero)
     (2 := pcb_zero\<lparr>state := ESTABLISHED\<rparr>,
      3 := pcb_zero\<lparr>state := ESTABLISHED\<rparr>),
     tcp_active_pcbs := Some 2,
     tcp_conn_iter := \<lparr>current = None, prev = Some 2, next_is_current = True\<rparr>\<rparr>"

text \<open>
  One bound PCB at address 2 on port 0xc001, the cursor at the start of the range
  (\<open>new_port_ex\<close>); and a store in which the PCB at address \<open>a\<close> has the local port \<open>a\<close>
  and the bound list runs through the addresses 49152 to 65535, so that every port of the
  range is taken (\<open>new_port_full\<close>).
\<close>

definition new_port_ex :: tcp_glob where
  "new_port_ex = glob_init\<lparr>pcbs := (\<lambda>a. pcb_zero)(2 := pcb_zero\<lparr>local_port := 0xc001\<rparr>),
     tcp_bound_pcbs := Some 2\<rparr>"

definition new_port_full :: tcp_glob where
  "new_port_full = glob_init\<lparr>pcbs := (\<lambda>a. pcb_zero\<lparr>local_port := of_nat a,
        pcb_next := (if a < 65535 then Some (Suc a) else None)\<rparr>),
     tcp_bound_pcbs := Some 49152\<rparr>"


definition all_port_addrs :: "addr list" where
  "all_port_addrs = [49152..<65536]"

text \<open>
  Collaborators that leave the PCB as it is and report success, with a routing layer that
  finds no route.
\<close>

definition ext_quiet :: tcp_ext where
  "ext_quiet = \<lparr>ext_output = (\<lambda>p. p), ext_zero_window_probe = (\<lambda>p. (ERR_OK, p)),
     ext_keepalive = (\<lambda>p. (ERR_OK, p)), ext_rexmit_rto = (\<lambda>p. p),
     ext_enqueue_flags = (\<lambda>p. (ERR_OK, p)),
     ext_route_get_local_ip = (\<lambda>v6 l r. (None, None)),
     ext_eff_send_mss = (\<lambda>m l r v6. m)\<rparr>"

text \<open>
  Two active PCBs at the addresses 2 and 3; PCB 2 owes a delayed ACK.
\<close>

definition fasttmr_ex :: tcp_glob where
  "fasttmr_ex = glob_init\<lparr>pcbs := (\<lambda>a. pcb_zero)
     (2 := pcb_zero\<lparr>state := ESTABLISHED, flags := {TF_ACK_DELAY}, pcb_next := Some 3\<rparr>,
      3 := pcb_zero\<lparr>state := ESTABLISHED\<rparr>),
     tcp_active_pcbs := Some 2\<rparr>"

text \<open>The same collaborators with a routing layer that finds a route.\<close>

definition ext_routed :: tcp_ext where
  "ext_routed = ext_quiet\<lparr>ext_route_get_local_ip := (\<lambda>v6 l r. (Some 0, Some (IP4 0xC0A80001)))\<rparr>"

text \<open>
  A PCB at address 2 that \<open>tcp_bind\<close> has bound to port 8080 of the wildcard address: it
  is \<open>CLOSED\<close> and on the bound list. The PCB at address 3 is fresh: on no list.
\<close>

definition connect_bound_ex :: tcp_glob where
  "connect_bound_ex = glob_init\<lparr>pcbs := (\<lambda>a. pcb_zero)(2 := pcb_zero\<lparr>local_port := 8080\<rparr>),
     tcp_bound_pcbs := Some 2\<rparr>"

text \<open>
  One active PCB at address 2, \<open>ESTABLISHED\<close>, whose activity stamp \<open>tmr\<close> is the current
  tick.
\<close>

definition tw_move_ex :: tcp_glob where
  "tw_move_ex = glob_init\<lparr>pcbs := (\<lambda>a. pcb_zero)(2 := pcb_zero\<lparr>state := ESTABLISHED\<rparr>),
     tcp_active_pcbs := Some 2\<rparr>"

section \<open>Lists in the store\<close>

text \<open>
  \<open>pcb_chain h p xs\<close>: following \<open>next\<close> from the pointer \<open>p\<close> visits exactly the
  addresses \<open>xs\<close>, in this order, and ends at NULL. A list that has a chain is finite and
  acyclic. On such a list every loop of the module returns, with the result of the
  corresponding function on \<open>xs\<close>.
\<close>

primrec pcb_chain :: "(addr \<Rightarrow> tcp_pcb) \<Rightarrow> addr option \<Rightarrow> addr list \<Rightarrow> bool" where
  "pcb_chain h p [] = (p = None)"
| "pcb_chain h p (a # as) = (p = Some a \<and> pcb_chain h (pcb_next (h a)) as)"

lemma pcb_chain_unique: "pcb_chain h p xs \<Longrightarrow> pcb_chain h p ys \<Longrightarrow> xs = ys"
proof (induction xs arbitrary: p ys)
  case Nil
  then show ?case by (cases ys) auto
next
  case (Cons a as)
  then show ?case by (cases ys) auto
qed

lemma pcb_chain_suffix: "pcb_chain h p (xs @ a # ys) \<Longrightarrow> pcb_chain h (Some a) (a # ys)"
  by (induction xs arbitrary: p) auto

lemma pcb_chain_hd_notin_tl: "pcb_chain h (pcb_next (h a)) as \<Longrightarrow> a \<notin> set as"
proof
  assume c: "pcb_chain h (pcb_next (h a)) as" and "a \<in> set as"
  then obtain ys zs where as: "as = ys @ a # zs" by (auto simp: in_set_conv_decomp)
  with c have "pcb_chain h (Some a) (a # zs)" using pcb_chain_suffix by blast
  then have "pcb_chain h (pcb_next (h a)) zs" by simp
  with c have "as = zs" by (rule pcb_chain_unique)
  with as show False by simp
qed

lemma pcb_chain_distinct: "pcb_chain h p xs \<Longrightarrow> distinct xs"
  by (induction xs arbitrary: p) (auto dest: pcb_chain_hd_notin_tl)

lemma pcb_chain_cong:
  "(\<And>a. a \<in> set xs \<Longrightarrow> pcb_next (h' a) = pcb_next (h a)) \<Longrightarrow> pcb_chain h' p xs = pcb_chain h p xs"
  by (induction xs arbitrary: p) auto

lemma pcb_chain_upd_other:
  "a \<notin> set xs \<Longrightarrow> pcb_chain (h(a := v)) p xs = pcb_chain h p xs"
  by (rule pcb_chain_cong) auto

lemma pcb_chain_upd_same_next:
  "pcb_next v = pcb_next (h a) \<Longrightarrow> pcb_chain (h(a := v)) p xs = pcb_chain h p xs"
  by (rule pcb_chain_cong) auto

lemma tcp_port_in_list_chain:
  "pcb_chain h p xs \<Longrightarrow> tcp_port_in_list h p port = Some (\<exists>a\<in>set xs. local_port (h a) = port)"
proof (induction xs arbitrary: p)
  case Nil
  then show ?case by (subst tcp_port_in_list.simps) simp
next
  case (Cons a as)
  from Cons.prems have p: "p = Some a" and c: "pcb_chain h (pcb_next (h a)) as" by auto
  show ?case unfolding p
    by (subst tcp_port_in_list.simps) (simp add: Cons.IH [OF c])
qed

fun kill_prio_scan :: "(addr \<Rightarrow> tcp_pcb) \<Rightarrow> u32_t \<Rightarrow> addr list \<Rightarrow> u32_t \<Rightarrow> addr option \<Rightarrow> u8_t \<Rightarrow> addr option" where
  "kill_prio_scan h ticks [] inactivity inactive mprio = inactive"
| "kill_prio_scan h ticks (a # as) inactivity inactive mprio =
     (if prio (h a) \<le> mprio \<and> inactivity \<le> ticks - tmr (h a)
      then kill_prio_scan h ticks as (ticks - tmr (h a)) (Some a) (prio (h a))
      else kill_prio_scan h ticks as inactivity inactive mprio)"

lemma tcp_kill_prio_loop_chain:
  "pcb_chain h p xs \<Longrightarrow>
   tcp_kill_prio_loop h ticks p inactivity inactive mprio
     = Some (kill_prio_scan h ticks xs inactivity inactive mprio)"
proof (induction xs arbitrary: p inactivity inactive mprio)
  case Nil
  then show ?case by (subst tcp_kill_prio_loop.simps) simp
next
  case (Cons a as)
  from Cons.prems have p: "p = Some a" and c: "pcb_chain h (pcb_next (h a)) as" by auto
  show ?case unfolding p
    by (subst tcp_kill_prio_loop.simps) (simp add: Cons.IH [OF c])
qed

lemma tcp_rmv_loop_chain:
  "pcb_chain (pcbs s) p xs \<Longrightarrow>
   tcp_rmv_loop npcb p s =
     Some (case List.find (\<lambda>t. pcb_next (pcbs s t) = Some npcb) xs of
             None \<Rightarrow> s
           | Some t \<Rightarrow> upd_pcb t (\<lambda>q. q\<lparr>pcb_next := pcb_next (pcbs s npcb)\<rparr>) s)"
proof (induction xs arbitrary: p)
  case Nil
  then show ?case by (subst tcp_rmv_loop.simps) simp
next
  case (Cons a as)
  from Cons.prems have p: "p = Some a" and c: "pcb_chain (pcbs s) (pcb_next (pcbs s a)) as" by auto
  show ?case unfolding p
    by (subst tcp_rmv_loop.simps) (simp add: Cons.IH [OF c])
qed

lemma tcp_iter_prev_prev_chain:
  "pcb_chain h p xs \<Longrightarrow>
   tcp_iter_prev_prev h pcb p pp =
     Some (if takeWhile (\<lambda>i. i \<noteq> pcb) xs = [] then pp else Some (last (takeWhile (\<lambda>i. i \<noteq> pcb) xs)))"
proof (induction xs arbitrary: p pp)
  case Nil
  then show ?case by (subst tcp_iter_prev_prev.simps) simp
next
  case (Cons a as)
  from Cons.prems have p: "p = Some a" and c: "pcb_chain h (pcb_next (h a)) as" by auto
  show ?case unfolding p
    by (subst tcp_iter_prev_prev.simps) (simp add: Cons.IH [OF c])
qed

subsection \<open>Unlinking\<close>

lemma pcbs_set_head [simp]: "pcbs (set_head l p s) = pcbs s"
  by (cases l) simp_all

lemma get_head_set_head [simp]: "get_head l (set_head l p s) = p"
  by (cases l) simp_all

lemma get_head_set_head_other: "l' \<noteq> l \<Longrightarrow> get_head l' (set_head l p s) = get_head l' s"
  by (cases l; cases l') simp_all

lemma get_head_upd_pcb [simp]: "get_head l (upd_pcb a f s) = get_head l s"
  by (cases l) (simp_all add: upd_pcb_def)

lemma pcbs_upd_pcb: "pcbs (upd_pcb a f s) = (pcbs s)(a := f (pcbs s a))"
  by (simp add: upd_pcb_def)

lemma iter_set_head [simp]: "tcp_conn_iter (set_head l p s) = tcp_conn_iter s"
  by (cases l) simp_all

lemma iter_upd_pcb [simp]: "tcp_conn_iter (upd_pcb a f s) = tcp_conn_iter s"
  by (simp add: upd_pcb_def)

lemma get_head_iter_update [simp]: "get_head l (s\<lparr>tcp_conn_iter := it\<rparr>) = get_head l s"
  by (cases l) simp_all

lemma tcp_rmv_head:
  "get_head l s = Some a \<Longrightarrow>
   tcp_rmv l a s = Some (upd_pcb a (\<lambda>p. p\<lparr>pcb_next := None\<rparr>) (set_head l (pcb_next (pcbs s a)) s))"
  by (simp add: tcp_rmv_def)

lemma find_pred_in_chain:
  "pcb_chain h p (ys @ t # a # zs) \<Longrightarrow> distinct (ys @ t # a # zs) \<Longrightarrow>
   List.find (\<lambda>t. pcb_next (h t) = Some a) (ys @ t # a # zs) = Some t"
proof (induction ys arbitrary: p)
  case Nil
  then show ?case by simp
next
  case (Cons y ys)
  then have c: "pcb_chain h (pcb_next (h y)) (ys @ t # a # zs)"
    and d: "distinct (ys @ t # a # zs)" by auto
  from c have "pcb_next (h y) = Some (hd (ys @ [t]))" by (cases ys) auto
  moreover from d have "hd (ys @ [t]) \<noteq> a" by (cases ys) auto
  ultimately have "pcb_next (h y) \<noteq> Some a" by simp
  with Cons.IH [OF c d] show ?case by simp
qed

lemma find_pred_absent:
  "pcb_chain h p xs \<Longrightarrow> a \<notin> set xs \<Longrightarrow> List.find (\<lambda>t. pcb_next (h t) = Some a) xs = None"
proof (induction xs arbitrary: p)
  case Nil
  then show ?case by simp
next
  case (Cons x xs)
  then have n: "pcb_next (h x) \<noteq> Some a" by (cases xs) auto
  from Cons.prems have "pcb_chain h (pcb_next (h x)) xs" and "a \<notin> set xs" by auto
  then have "List.find (\<lambda>t. pcb_next (h t) = Some a) xs = None" by (rule Cons.IH)
  with n show ?case by simp
qed

lemma chain_unlink:
  "pcb_chain h p (ys @ t # a # zs) \<Longrightarrow> distinct (ys @ t # a # zs) \<Longrightarrow>
   pcb_chain (h(t := (h t)\<lparr>pcb_next := pcb_next (h a)\<rparr>)) p (ys @ t # zs)"
proof (induction ys arbitrary: p)
  case Nil
  then have p: "p = Some t" and cz: "pcb_chain h (pcb_next (h a)) zs" and nz: "t \<notin> set zs"
    by auto
  from cz have "pcb_chain (h(t := (h t)\<lparr>pcb_next := pcb_next (h a)\<rparr>)) (pcb_next (h a)) zs"
    by (simp only: pcb_chain_upd_other [OF nz])
  then show ?case unfolding p by (simp add: fun_upd_def)
next
  case (Cons y ys)
  then have p: "p = Some y" and c: "pcb_chain h (pcb_next (h y)) (ys @ t # a # zs)"
    and d: "distinct (ys @ t # a # zs)" and ne: "y \<noteq> t" by auto
  from Cons.IH [OF c d] ne show ?case unfolding p by (simp add: fun_upd_def)
qed

lemma tcp_rmv_mid:
  assumes c: "pcb_chain (pcbs s) (get_head l s) (ys @ t # a # zs)"
  shows "tcp_rmv l a s = Some (upd_pcb a (\<lambda>p. p\<lparr>pcb_next := None\<rparr>)
           (upd_pcb t (\<lambda>p. p\<lparr>pcb_next := pcb_next (pcbs s a)\<rparr>) s))"
proof -
  from c have d: "distinct (ys @ t # a # zs)" by (rule pcb_chain_distinct)
  from c have h: "get_head l s = Some (hd (ys @ [t]))" by (cases ys) auto
  from d have "hd (ys @ [t]) \<noteq> a" by (cases ys) auto
  with h have nh: "get_head l s \<noteq> Some a" by simp
  from find_pred_in_chain [OF c d]
  show ?thesis
    by (simp add: tcp_rmv_def nh tcp_rmv_loop_chain [OF c])
qed

lemma tcp_rmv_absent:
  assumes c: "pcb_chain (pcbs s) (get_head l s) xs" and ne: "a \<notin> set xs"
  shows "tcp_rmv l a s = Some (upd_pcb a (\<lambda>p. p\<lparr>pcb_next := None\<rparr>) s)"
proof -
  from c ne have nh: "get_head l s \<noteq> Some a" by (cases xs) auto
  from find_pred_absent [OF c ne]
  show ?thesis
    by (simp add: tcp_rmv_def nh tcp_rmv_loop_chain [OF c])
qed

text \<open>What \<open>tcp_rmv\<close> leaves: the list without the PCB.\<close>

lemma tcp_rmv_chain:
  assumes c: "pcb_chain (pcbs s) (get_head l s) xs"
  shows "\<exists>s'. tcp_rmv l a s = Some s' \<and> pcb_chain (pcbs s') (get_head l s') (remove1 a xs)
           \<and> tcp_conn_iter s' = tcp_conn_iter s"
proof (cases "a \<in> set xs")
  case False
  have "pcb_chain (pcbs (upd_pcb a (\<lambda>p. p\<lparr>pcb_next := None\<rparr>) s))
          (get_head l (upd_pcb a (\<lambda>p. p\<lparr>pcb_next := None\<rparr>) s)) (remove1 a xs)"
    using c False by (simp add: pcbs_upd_pcb pcb_chain_upd_other remove1_idem)
  with tcp_rmv_absent [OF c False] show ?thesis by simp
next
  case True
  from split_list_first [OF True] obtain ys zs where xs: "xs = ys @ a # zs" and nys: "a \<notin> set ys"
    by blast
  from c have d: "distinct xs" by (rule pcb_chain_distinct)
  with xs have nzs: "a \<notin> set zs" by auto
  have r: "remove1 a xs = ys @ zs" using xs nys by (simp add: remove1_append)
  show ?thesis
  proof (cases ys rule: rev_cases)
    case Nil
    with c xs have h: "get_head l s = Some a" and cz: "pcb_chain (pcbs s) (pcb_next (pcbs s a)) zs"
      by auto
    have "pcb_chain (pcbs (upd_pcb a (\<lambda>p. p\<lparr>pcb_next := None\<rparr>) (set_head l (pcb_next (pcbs s a)) s)))
          (get_head l (upd_pcb a (\<lambda>p. p\<lparr>pcb_next := None\<rparr>) (set_head l (pcb_next (pcbs s a)) s)))
          (remove1 a xs)"
      using cz nzs r Nil by (simp add: pcbs_upd_pcb pcb_chain_upd_other)
    with tcp_rmv_head [OF h] show ?thesis by simp
  next
    case (snoc ys' t)
    from c xs snoc have c': "pcb_chain (pcbs s) (get_head l s) (ys' @ t # a # zs)" by simp
    from d xs snoc have d': "distinct (ys' @ t # a # zs)" by simp
    from d' have n: "a \<notin> set (ys' @ t # zs)" by auto
    have "pcb_chain (pcbs (upd_pcb a (\<lambda>p. p\<lparr>pcb_next := None\<rparr>)
           (upd_pcb t (\<lambda>p. p\<lparr>pcb_next := pcb_next (pcbs s a)\<rparr>) s)))
          (get_head l s) (ys' @ t # zs)"
      using chain_unlink [OF c' d'] 
      by (simp only: pcbs_upd_pcb pcb_chain_upd_other [OF n])
    then show ?thesis using tcp_rmv_mid [OF c'] r snoc by simp
  qed
qed

subsection \<open>Registering\<close>

lemma get_head_log_event [simp]: "get_head l (log_event e s) = get_head l s"
  by (cases l) (simp_all add: log_event_def)

lemma pcbs_log_event [simp]: "pcbs (log_event e s) = pcbs s"
  by (simp add: log_event_def)

lemma iter_log_event [simp]: "tcp_conn_iter (log_event e s) = tcp_conn_iter s"
  by (simp add: log_event_def)

lemma get_head_tcp_reg [simp]: "get_head l (tcp_reg l a s) = Some a"
  by (simp add: tcp_reg_def Let_def)

lemma get_head_tcp_reg_other: "l' \<noteq> l \<Longrightarrow> get_head l' (tcp_reg l a s) = get_head l' s"
  by (simp add: tcp_reg_def Let_def get_head_set_head_other)

lemma pcbs_tcp_reg: "pcbs (tcp_reg l a s) = (pcbs s)(a := (pcbs s a)\<lparr>pcb_next := get_head l s\<rparr>)"
  by (simp add: tcp_reg_def Let_def pcbs_upd_pcb)

lemma iter_tcp_reg [simp]: "tcp_conn_iter (tcp_reg l a s) = tcp_conn_iter s"
  by (simp add: tcp_reg_def Let_def)

lemma tcp_reg_chain:
  assumes "pcb_chain (pcbs s) (get_head l s) xs" and "a \<notin> set xs"
  shows "pcb_chain (pcbs (tcp_reg l a s)) (get_head l (tcp_reg l a s)) (a # xs)"
  using assms
  by (simp add: pcbs_tcp_reg pcb_chain_upd_other)


section \<open>The listen backlog\<close>

lemma backlog_delayed_idem:
  "tcp_backlog_delayed_internal pcb (tcp_backlog_delayed_internal pcb s)
     = tcp_backlog_delayed_internal pcb s"
  by (auto simp: tcp_backlog_delayed_internal_def upd_pcb_def split: option.splits)

lemma backlog_accepted_idem:
  "tcp_backlog_accepted_internal pcb (tcp_backlog_accepted_internal pcb s)
     = tcp_backlog_accepted_internal pcb s"
  by (auto simp: tcp_backlog_accepted_internal_def upd_pcb_def split: option.splits)

lemma backlog_roundtrip_state:
  "TF_BACKLOGPEND \<notin> flags (pcbs s pcb) \<Longrightarrow>
   tcp_backlog_accepted_internal pcb (tcp_backlog_delayed_internal pcb s) = s"
  by (auto simp: tcp_backlog_delayed_internal_def tcp_backlog_accepted_internal_def
        upd_pcb_def fun_eq_iff split: option.splits)

lemma backlog_delayed_counts:
  "TF_BACKLOGPEND \<notin> flags (pcbs s pcb) \<Longrightarrow> listener (pcbs s pcb) = Some l \<Longrightarrow>
   accepts_pending (pcbs (tcp_backlog_delayed_internal pcb s) l) = accepts_pending (pcbs s l) + 1
   \<and> TF_BACKLOGPEND \<in> flags (pcbs (tcp_backlog_delayed_internal pcb s) pcb)"
  by (simp add: tcp_backlog_delayed_internal_def upd_pcb_def)

lemma backlog_delayed_skip:
  "TF_BACKLOGPEND \<in> flags (pcbs s pcb) \<or> listener (pcbs s pcb) = None \<Longrightarrow>
   tcp_backlog_delayed_internal pcb s = s"
  by (auto simp: tcp_backlog_delayed_internal_def split: option.splits)

lemma backlog_accepted_counts:
  "TF_BACKLOGPEND \<in> flags (pcbs s pcb) \<Longrightarrow> listener (pcbs s pcb) = Some l \<Longrightarrow>
   accepts_pending (pcbs (tcp_backlog_accepted_internal pcb s) l) = accepts_pending (pcbs s l) - 1
   \<and> TF_BACKLOGPEND \<notin> flags (pcbs (tcp_backlog_accepted_internal pcb s) pcb)"
  by (simp add: tcp_backlog_accepted_internal_def upd_pcb_def)

lemma backlog_accepted_skip:
  "TF_BACKLOGPEND \<notin> flags (pcbs s pcb) \<or> listener (pcbs s pcb) = None \<Longrightarrow>
   tcp_backlog_accepted_internal pcb s = s"
  by (auto simp: tcp_backlog_accepted_internal_def split: option.splits)

lemma u8_pred_no_wrap: "(x::u8_t) \<noteq> 0 \<Longrightarrow> unat (x - 1) + 1 = unat x"
  by (metis Suc_eq_plus1 Suc_pred' bot_nat_0.not_eq_extremum unat_eq_zero unat_minus_one)

text \<open>
  C7, as the code has it. The claim lets \<open>backlog_delayed; backlog_accepted\<close> restore
  \<open>accepts_pending\<close> for every connection PCB; on a PCB that is already pending the first
  call does nothing and the second one decrements, so the count ends one lower. For a PCB
  that is not pending the pair restores the whole state, the count of its listener
  included. \<open>backlog_delayed\<close> twice is \<open>backlog_delayed\<close> once: it increments the count
  of the listener \<open>l\<close> and sets TF_BACKLOGPEND exactly when the PCB is not pending and has a
  listener, and otherwise changes nothing. \<open>backlog_accepted\<close> twice is
  \<open>backlog_accepted\<close> once: it decrements and clears the flag exactly when the PCB is
  pending and has a listener, and the decrement does not wrap below zero when the count
  is not zero (what the assertion before the decrement states).
\<close>

theorem backlog_delayed_accepted:
  "(TF_BACKLOGPEND \<notin> flags (pcbs s pcb) \<longrightarrow>
      tcp_backlog_accepted_internal pcb (tcp_backlog_delayed_internal pcb s) = s)
   \<and> tcp_backlog_delayed_internal pcb (tcp_backlog_delayed_internal pcb s)
        = tcp_backlog_delayed_internal pcb s
   \<and> (TF_BACKLOGPEND \<notin> flags (pcbs s pcb) \<and> listener (pcbs s pcb) = Some l \<longrightarrow>
        accepts_pending (pcbs (tcp_backlog_delayed_internal pcb s) l) = accepts_pending (pcbs s l) + 1
        \<and> TF_BACKLOGPEND \<in> flags (pcbs (tcp_backlog_delayed_internal pcb s) pcb))
   \<and> (TF_BACKLOGPEND \<in> flags (pcbs s pcb) \<or> listener (pcbs s pcb) = None \<longrightarrow>
        tcp_backlog_delayed_internal pcb s = s)
   \<and> tcp_backlog_accepted_internal pcb (tcp_backlog_accepted_internal pcb s)
        = tcp_backlog_accepted_internal pcb s
   \<and> (TF_BACKLOGPEND \<in> flags (pcbs s pcb) \<and> listener (pcbs s pcb) = Some l \<longrightarrow>
        accepts_pending (pcbs (tcp_backlog_accepted_internal pcb s) l) = accepts_pending (pcbs s l) - 1
        \<and> TF_BACKLOGPEND \<notin> flags (pcbs (tcp_backlog_accepted_internal pcb s) pcb)
        \<and> (accepts_pending (pcbs s l) \<noteq> 0 \<longrightarrow>
             unat (accepts_pending (pcbs (tcp_backlog_accepted_internal pcb s) l)) + 1
               = unat (accepts_pending (pcbs s l))))
   \<and> (TF_BACKLOGPEND \<notin> flags (pcbs s pcb) \<or> listener (pcbs s pcb) = None \<longrightarrow>
        tcp_backlog_accepted_internal pcb s = s)"
proof -
  have unwrap: "accepts_pending (pcbs s l) \<noteq> 0 \<Longrightarrow>
      accepts_pending (pcbs (tcp_backlog_accepted_internal pcb s) l) = accepts_pending (pcbs s l) - 1 \<Longrightarrow>
      unat (accepts_pending (pcbs (tcp_backlog_accepted_internal pcb s) l)) + 1
        = unat (accepts_pending (pcbs s l))"
    using u8_pred_no_wrap [of "accepts_pending (pcbs s l)"] by simp
  show ?thesis
    using backlog_roundtrip_state [of s pcb] backlog_delayed_idem [of pcb s]
      backlog_delayed_counts [of s pcb l] backlog_delayed_skip [of s pcb]
      backlog_accepted_idem [of pcb s] backlog_accepted_counts [of s pcb l]
      backlog_accepted_skip [of s pcb] unwrap
    by blast
qed

theorem backlog_delayed_accepted_witness:
  "tcp_backlog_accepted_internal 1 (tcp_backlog_delayed_internal 1 backlog_fresh) = backlog_fresh
   \<and> accepts_pending (pcbs (tcp_backlog_delayed_internal 1 backlog_fresh) 2) = 1
   \<and> TF_BACKLOGPEND \<in> flags (pcbs (tcp_backlog_delayed_internal 1 backlog_fresh) 1)
   \<and> tcp_backlog_delayed_internal 1 backlog_pending = backlog_pending
   \<and> accepts_pending (pcbs (tcp_backlog_accepted_internal 1 backlog_pending) 2) = 0
   \<and> TF_BACKLOGPEND \<notin> flags (pcbs (tcp_backlog_accepted_internal 1 backlog_pending) 1)
   \<and> unat (accepts_pending (pcbs (tcp_backlog_accepted_internal 1 backlog_pending) 2)) + 1
       = unat (accepts_pending (pcbs backlog_pending 2))
   \<and> tcp_backlog_accepted_internal 1 backlog_fresh = backlog_fresh"
  using backlog_delayed_accepted [of backlog_fresh 1 2]
    backlog_delayed_accepted [of backlog_pending 1 2]
  by (simp add: backlog_fresh_def backlog_pending_def glob_init_def pcb_zero_def)

text \<open>
  C7 as stated fails on a PCB that is already pending: \<open>backlog_delayed\<close> then
  \<open>backlog_accepted\<close> takes the count of the listener from 1 to 0.
\<close>

theorem backlog_roundtrip_counterexample:
  "accepts_pending (pcbs (tcp_backlog_accepted_internal 1
       (tcp_backlog_delayed_internal 1 backlog_pending)) 2) = 0
   \<and> accepts_pending (pcbs backlog_pending 2) = 1"
  by (simp add: backlog_pending_def glob_init_def pcb_zero_def
        tcp_backlog_delayed_internal_def tcp_backlog_accepted_internal_def upd_pcb_def)

section \<open>The dual-stack listen on a port in use\<close>

lemma listen_dual_port_in_use:
  assumes "pcb_chain (pcbs s) (tcp_listen_pcbs s) ls"
    and "local_port (pcbs s lpcb) \<noteq> 0"
    and "\<exists>a\<in>set ls. local_port (pcbs s a) = local_port (pcbs s lpcb)"
  shows "tcp_listen_dual_with_backlog cfg lpcb b s = Some (ERR_OK, s)"
  using assms
  by (simp add: tcp_listen_dual_with_backlog_def tcp_port_in_list_chain [OF assms(1)]
        err_of_pointer_def ERR_OK_def)

text \<open>
  C2: the listener at address 1 holds port 80 and the listen PCB at address 2 has the local
  port 80. \<open>tcp_listen_dual_with_backlog\<close> finds the port in use and executes
  \<open>return NULL\<close>: the caller receives 0, which is \<open>ERR_OK\<close> and not \<open>ERR_USE\<close>, and
  nothing has changed.
\<close>

theorem listen_dual_port_in_use_returns_ok:
  "tcp_listen_dual_with_backlog lwip_opts 2 4 listen_dual_ex = Some (ERR_OK, listen_dual_ex)
   \<and> ERR_OK \<noteq> ERR_USE
   \<and> local_port (pcbs listen_dual_ex 2) = 80
   \<and> tcp_listen_pcbs listen_dual_ex = Some 1
   \<and> local_port (pcbs listen_dual_ex 1) = 80"
proof -
  have c: "pcb_chain (pcbs listen_dual_ex) (tcp_listen_pcbs listen_dual_ex) [1]"
    by (simp add: listen_dual_ex_def glob_init_def pcb_zero_def)
  have "tcp_listen_dual_with_backlog lwip_opts 2 4 listen_dual_ex = Some (ERR_OK, listen_dual_ex)"
    by (rule listen_dual_port_in_use [OF c])
      (simp_all add: listen_dual_ex_def glob_init_def pcb_zero_def)
  then show ?thesis
    by (simp add: ERR_OK_def ERR_USE_def listen_dual_ex_def glob_init_def pcb_zero_def)
qed

section \<open>The victim of tcp_kill_prio\<close>

text \<open>
  C1: both connections of \<open>kill_prio_ex\<close> are eligible for \<open>tcp_kill_prio(64)\<close> (their
  priorities 5 and 3 are at most 64). The scan takes the first one, lowers the ceiling to
  5 and keeps its age 100 as the bar; the second one, of the lower priority 3 but of
  age 10, does not pass the bar. The PCB of priority 5 is freed and the PCB of the lowest
  priority stays on the active list.
\<close>

theorem kill_prio_kills_higher_prio:
  "map_option freed (tcp_kill_prio lwip_opts ext 64 kill_prio_ex) = Some [1]
   \<and> map_option tcp_active_pcbs (tcp_kill_prio lwip_opts ext 64 kill_prio_ex) = Some (Some 2)
   \<and> prio (pcbs kill_prio_ex 1) = 5 \<and> prio (pcbs kill_prio_ex 2) = 3"
proof -
  have c: "pcb_chain (pcbs kill_prio_ex) (tcp_active_pcbs kill_prio_ex) [1, 2]"
    by (simp add: kill_prio_ex_def glob_init_def pcb_zero_def)
  have l: "tcp_kill_prio_loop (pcbs kill_prio_ex) (tcp_ticks kill_prio_ex)
             (tcp_active_pcbs kill_prio_ex) 0 None (min (TCP_PRIO_MAX lwip_opts) 64) = Some (Some 1)"
    unfolding tcp_kill_prio_loop_chain [OF c]
    by (simp add: kill_prio_ex_def glob_init_def pcb_zero_def lwip_opts_def)
  have f: "tcp_kill_prio lwip_opts ext 64 kill_prio_ex
             = tcp_pcb_free ext 1 True None (tcp_report_err 1 ERR_ABRT kill_prio_ex)"
    by (simp add: tcp_kill_prio_def l)
  show ?thesis unfolding f
    by (simp add: kill_prio_ex_def glob_init_def pcb_zero_def
          tcp_pcb_free_def tcp_report_err_def upd_pcb_def tcp_rst_def log_event_def
          tcp_iter_will_remove_def tcp_rmv_def tcp_pcb_purge_def
          tcp_backlog_accepted_internal_def memp_free_def Let_def)
qed

section \<open>The safe iterator under removal\<close>

lemma takeWhile_up_to: "a \<notin> set ys \<Longrightarrow> takeWhile (\<lambda>i. i \<noteq> a) (ys @ a # zs) = ys"
  by (induction ys) auto

lemma iter_will_remove_current:
  "current it = Some c \<Longrightarrow>
   tcp_iter_will_remove h it c pcblist = Some (it\<lparr>current := pcb_next (h c), next_is_current := True\<rparr>)"
  by (simp add: tcp_iter_will_remove_def)

lemma iter_will_remove_prev:
  assumes c: "pcb_chain h pcblist (ys @ p # zs)" and cur: "current it = Some c" and pc: "p \<noteq> c"
    and pr: "prev it = Some p"
  shows "tcp_iter_will_remove h it p pcblist
           = Some (it\<lparr>prev := (if ys = [] then None else Some (last ys))\<rparr>)"
proof -
  from c have "distinct (ys @ p # zs)" by (rule pcb_chain_distinct)
  then have "p \<notin> set ys" by auto
  then have "takeWhile (\<lambda>i. i \<noteq> p) (ys @ p # zs) = ys" by (rule takeWhile_up_to)
  with cur pc pr show ?thesis
    by (simp add: tcp_iter_will_remove_def tcp_iter_prev_prev_chain [OF c])
qed


text \<open>
  C3, as the code has it. The list \<open>l\<close> that is being scanned is the chain \<open>xs\<close>.

  If \<open>tcp_iter_will_remove\<close> is called for the PCB \<open>c\<close> that is \<open>current\<close> and \<open>c\<close> is
  then unlinked by \<open>tcp_rmv\<close>, both calls return and the next \<open>tcp_iter_next\<close> delivers
  the PCB that followed \<open>c\<close> before the removal.

  If \<open>current\<close> is the PCB \<open>c\<close> (it is not NULL), \<open>prev\<close> is \<open>p\<close> and \<open>p\<close> precedes \<open>c\<close> in
  the list (\<open>xs = ys @ p # c # zs\<close>), then \<open>tcp_iter_will_remove\<close> for \<open>p\<close> sets \<open>prev\<close> to
  the predecessor of \<open>p\<close> (the last of \<open>ys\<close>, NULL when \<open>p\<close> is the head) and leaves
  \<open>current\<close>; after \<open>tcp_rmv\<close> the list is \<open>ys @ c # zs\<close> and \<open>prev->next\<close> is \<open>c\<close> (the
  head is \<open>c\<close> when \<open>prev\<close> is NULL).
\<close>

theorem iter_will_remove_safe:
  assumes chain: "pcb_chain (pcbs s) (get_head l s) xs"
  shows "(current (tcp_conn_iter s) = Some c \<longrightarrow>
           (\<exists>it' s' it''.
              tcp_iter_will_remove (pcbs s) (tcp_conn_iter s) c (get_head l s) = Some it' \<and>
              tcp_rmv l c (s\<lparr>tcp_conn_iter := it'\<rparr>) = Some s' \<and>
              tcp_iter_next (pcbs s') (tcp_conn_iter s') = Some (pcb_next (pcbs s c), it'')))
       \<and> (xs = ys @ p # c # zs \<and> current (tcp_conn_iter s) = Some c \<and> prev (tcp_conn_iter s) = Some p \<longrightarrow>
           (\<exists>it' s'.
              tcp_iter_will_remove (pcbs s) (tcp_conn_iter s) p (get_head l s) = Some it' \<and>
              prev it' = (if ys = [] then None else Some (last ys)) \<and>
              current it' = Some c \<and>
              tcp_rmv l p (s\<lparr>tcp_conn_iter := it'\<rparr>) = Some s' \<and>
              tcp_conn_iter s' = it' \<and>
              pcb_chain (pcbs s') (get_head l s') (ys @ c # zs) \<and>
              (case prev it' of
                 None \<Rightarrow> get_head l s' = Some c
               | Some q \<Rightarrow> pcb_next (pcbs s' q) = Some c)))"
proof (intro conjI impI)
  assume cur: "current (tcp_conn_iter s) = Some c"
  let ?it = "(tcp_conn_iter s)\<lparr>current := pcb_next (pcbs s c), next_is_current := True\<rparr>"
  have c1: "pcb_chain (pcbs (s\<lparr>tcp_conn_iter := ?it\<rparr>)) (get_head l (s\<lparr>tcp_conn_iter := ?it\<rparr>)) xs"
    using chain by simp
  from tcp_rmv_chain [OF c1, of c] obtain s' where
    r: "tcp_rmv l c (s\<lparr>tcp_conn_iter := ?it\<rparr>) = Some s'" and i: "tcp_conn_iter s' = ?it"
    by auto
  have "tcp_iter_next (pcbs s') (tcp_conn_iter s')
          = Some (pcb_next (pcbs s c), ?it\<lparr>next_is_current := False\<rparr>)"
    by (simp add: i tcp_iter_next_def)
  with iter_will_remove_current [OF cur] r
  show "\<exists>it' s' it''.
          tcp_iter_will_remove (pcbs s) (tcp_conn_iter s) c (get_head l s) = Some it' \<and>
          tcp_rmv l c (s\<lparr>tcp_conn_iter := it'\<rparr>) = Some s' \<and>
          tcp_iter_next (pcbs s') (tcp_conn_iter s') = Some (pcb_next (pcbs s c), it'')"
    by blast
next
  assume a: "xs = ys @ p # c # zs \<and> current (tcp_conn_iter s) = Some c \<and> prev (tcp_conn_iter s) = Some p"
  then have xs: "xs = ys @ p # c # zs" and cur: "current (tcp_conn_iter s) = Some c"
    and pr: "prev (tcp_conn_iter s) = Some p" by auto
  from chain xs have ch: "pcb_chain (pcbs s) (get_head l s) (ys @ p # c # zs)" by simp
  then have d: "distinct (ys @ p # c # zs)" by (rule pcb_chain_distinct)
  then have pc: "p \<noteq> c" by auto
  let ?it = "(tcp_conn_iter s)\<lparr>prev := (if ys = [] then None else Some (last ys))\<rparr>"
  let ?s1 = "s\<lparr>tcp_conn_iter := ?it\<rparr>"
  have w: "tcp_iter_will_remove (pcbs s) (tcp_conn_iter s) p (get_head l s) = Some ?it"
    by (rule iter_will_remove_prev [OF ch cur pc pr])
  have c1: "pcb_chain (pcbs ?s1) (get_head l ?s1) xs" using chain by simp
  from tcp_rmv_chain [OF c1, of p] obtain s' where
    r: "tcp_rmv l p ?s1 = Some s'" and i: "tcp_conn_iter s' = ?it"
    and c2: "pcb_chain (pcbs s') (get_head l s') (remove1 p xs)" by auto
  from d xs have rm: "remove1 p xs = ys @ c # zs" by (simp add: remove1_append)
  from c2 rm have c3: "pcb_chain (pcbs s') (get_head l s') (ys @ c # zs)" by simp
  have nx: "(case prev ?it of None \<Rightarrow> get_head l s' = Some c
             | Some q \<Rightarrow> pcb_next (pcbs s' q) = Some c)"
  proof (cases ys rule: rev_cases)
    case Nil
    with c3 show ?thesis by simp
  next
    case (snoc ys' t)
    with c3 have "pcb_chain (pcbs s') (get_head l s') (ys' @ t # c # zs)" by simp
    then have "pcb_chain (pcbs s') (Some t) (t # c # zs)" by (rule pcb_chain_suffix)
    with snoc show ?thesis by simp
  qed
  from w r i c3 nx cur
  show "\<exists>it' s'.
          tcp_iter_will_remove (pcbs s) (tcp_conn_iter s) p (get_head l s) = Some it' \<and>
          prev it' = (if ys = [] then None else Some (last ys)) \<and>
          current it' = Some c \<and>
          tcp_rmv l p (s\<lparr>tcp_conn_iter := it'\<rparr>) = Some s' \<and>
          tcp_conn_iter s' = it' \<and>
          pcb_chain (pcbs s') (get_head l s') (ys @ c # zs) \<and>
          (case prev it' of
             None \<Rightarrow> get_head l s' = Some c
           | Some q \<Rightarrow> pcb_next (pcbs s' q) = Some c)"
    by (intro exI [of _ ?it] exI [of _ s']) simp
qed

theorem iter_will_remove_safe_witness:
  "pcb_chain (pcbs iter_ex4) (get_head L_active iter_ex4) [1, 2, 3, 4]
   \<and> current (tcp_conn_iter iter_ex4) = Some 3 \<and> prev (tcp_conn_iter iter_ex4) = Some 2
   \<and> (\<exists>it' s' it''.
          tcp_iter_will_remove (pcbs iter_ex4) (tcp_conn_iter iter_ex4) 3 (get_head L_active iter_ex4) = Some it' \<and>
          tcp_rmv L_active 3 (iter_ex4\<lparr>tcp_conn_iter := it'\<rparr>) = Some s' \<and>
          tcp_iter_next (pcbs s') (tcp_conn_iter s') = Some (Some 4, it''))
   \<and> (\<exists>it' s'.
          tcp_iter_will_remove (pcbs iter_ex4) (tcp_conn_iter iter_ex4) 2 (get_head L_active iter_ex4) = Some it' \<and>
          prev it' = Some 1 \<and> current it' = Some 3 \<and>
          tcp_rmv L_active 2 (iter_ex4\<lparr>tcp_conn_iter := it'\<rparr>) = Some s' \<and>
          tcp_conn_iter s' = it' \<and>
          pcb_chain (pcbs s') (get_head L_active s') [1, 3, 4] \<and>
          pcb_next (pcbs s' 1) = Some 3)"
proof -
  have c: "pcb_chain (pcbs iter_ex4) (get_head L_active iter_ex4) [1, 2, 3, 4]"
    by (simp add: iter_ex4_def glob_init_def pcb_zero_def)
  have n: "pcb_next (pcbs iter_ex4 3) = Some 4"
    by (simp add: iter_ex4_def glob_init_def pcb_zero_def)
  have i: "current (tcp_conn_iter iter_ex4) = Some 3" "prev (tcp_conn_iter iter_ex4) = Some 2"
    by (simp_all add: iter_ex4_def glob_init_def)
  from iter_will_remove_safe [OF c, of 3 "[1]" 2 "[4]"] i n
  have "(\<exists>it' s' it''.
          tcp_iter_will_remove (pcbs iter_ex4) (tcp_conn_iter iter_ex4) 3 (get_head L_active iter_ex4) = Some it' \<and>
          tcp_rmv L_active 3 (iter_ex4\<lparr>tcp_conn_iter := it'\<rparr>) = Some s' \<and>
          tcp_iter_next (pcbs s') (tcp_conn_iter s') = Some (Some 4, it''))"
   and "(\<exists>it' s'.
          tcp_iter_will_remove (pcbs iter_ex4) (tcp_conn_iter iter_ex4) 2 (get_head L_active iter_ex4) = Some it' \<and>
          prev it' = Some 1 \<and> current it' = Some 3 \<and>
          tcp_rmv L_active 2 (iter_ex4\<lparr>tcp_conn_iter := it'\<rparr>) = Some s' \<and>
          tcp_conn_iter s' = it' \<and>
          pcb_chain (pcbs s') (get_head L_active s') [1, 3, 4] \<and>
          pcb_next (pcbs s' 1) = Some 3)"
    by simp_all blast
  with c i show ?thesis by blast
qed


text \<open>
  C3 as stated fails when \<open>current\<close> is NULL. A scan of the list of the PCBs 2 and 3 has
  delivered both (\<open>prev\<close> is 2, \<open>current\<close> is 3); PCB 3 is removed as \<open>current\<close>, which
  leaves \<open>current\<close> NULL; then \<open>tcp_iter_will_remove\<close> is called for PCB 2, the \<open>prev\<close>
  and the head of the list. The guard \<open>it->current != NULL\<close> skips the repair: \<open>prev\<close>
  stays 2 and is not set to NULL, the predecessor of the head.
\<close>

theorem iter_prev_not_repaired:
  "tcp_iter_next (pcbs iter_ex2) (tcp_iter_start (tcp_active_pcbs iter_ex2))
     = Some (Some 2, \<lparr>current = Some 2, prev = None, next_is_current = False\<rparr>)
   \<and> tcp_iter_next (pcbs iter_ex2) \<lparr>current = Some 2, prev = None, next_is_current = False\<rparr>
     = Some (Some 3, \<lparr>current = Some 3, prev = Some 2, next_is_current = False\<rparr>)
   \<and> tcp_iter_will_remove (pcbs iter_ex2)
       \<lparr>current = Some 3, prev = Some 2, next_is_current = False\<rparr> 3 (tcp_active_pcbs iter_ex2)
     = Some \<lparr>current = None, prev = Some 2, next_is_current = True\<rparr>
   \<and> tcp_rmv L_active 3
       (iter_ex2\<lparr>tcp_conn_iter := \<lparr>current = None, prev = Some 2, next_is_current = True\<rparr>\<rparr>)
     = Some iter_ex2_unlinked
   \<and> tcp_active_pcbs iter_ex2_unlinked = Some 2
   \<and> tcp_iter_will_remove (pcbs iter_ex2_unlinked) (tcp_conn_iter iter_ex2_unlinked) 2
       (tcp_active_pcbs iter_ex2_unlinked)
     = Some \<lparr>current = None, prev = Some 2, next_is_current = True\<rparr>"
proof -
  let ?it3 = "\<lparr>current = None, prev = Some 2, next_is_current = True\<rparr>"
  let ?s0 = "iter_ex2\<lparr>tcp_conn_iter := ?it3\<rparr>"
  have n1: "tcp_iter_next (pcbs iter_ex2) (tcp_iter_start (tcp_active_pcbs iter_ex2))
     = Some (Some 2, \<lparr>current = Some 2, prev = None, next_is_current = False\<rparr>)"
    by (simp add: tcp_iter_next_def tcp_iter_start_def iter_ex2_def glob_init_def)
  have n2: "tcp_iter_next (pcbs iter_ex2) \<lparr>current = Some 2, prev = None, next_is_current = False\<rparr>
     = Some (Some 3, \<lparr>current = Some 3, prev = Some 2, next_is_current = False\<rparr>)"
    by (simp add: tcp_iter_next_def iter_ex2_def glob_init_def pcb_zero_def)
  have w3: "tcp_iter_will_remove (pcbs iter_ex2)
       \<lparr>current = Some 3, prev = Some 2, next_is_current = False\<rparr> 3 (tcp_active_pcbs iter_ex2)
     = Some ?it3"
    by (simp add: tcp_iter_will_remove_def iter_ex2_def glob_init_def pcb_zero_def)
  have c: "pcb_chain (pcbs ?s0) (get_head L_active ?s0) ([] @ 2 # 3 # [])"
    by (simp add: iter_ex2_def glob_init_def pcb_zero_def)
  have "upd_pcb 3 (\<lambda>p. p\<lparr>pcb_next := None\<rparr>)
          (upd_pcb 2 (\<lambda>p. p\<lparr>pcb_next := pcb_next (pcbs ?s0 3)\<rparr>) ?s0) = iter_ex2_unlinked"
    by (simp add: upd_pcb_def iter_ex2_def iter_ex2_unlinked_def glob_init_def pcb_zero_def fun_eq_iff)
  with tcp_rmv_mid [OF c] have r: "tcp_rmv L_active 3 ?s0 = Some iter_ex2_unlinked"
    by simp
  have w4: "tcp_iter_will_remove (pcbs iter_ex2_unlinked) (tcp_conn_iter iter_ex2_unlinked) 2
       (tcp_active_pcbs iter_ex2_unlinked) = Some ?it3"
    by (simp add: tcp_iter_will_remove_def iter_ex2_unlinked_def glob_init_def)
  have h: "tcp_active_pcbs iter_ex2_unlinked = Some 2"
    by (simp add: iter_ex2_unlinked_def glob_init_def)
  from n1 n2 w3 r h w4 show ?thesis by blast
qed

section \<open>The ephemeral port allocator\<close>

subsection \<open>Sixteen-bit arithmetic\<close>

lemma u16_le: "((0xc000::u16_t) \<le> p) = (49152 \<le> unat p)"
  by unat_arith

lemma u16_max: "unat (p::u16_t) \<le> 65535"
proof -
  have "unat p < 2 ^ LENGTH(16)" by (rule unsigned_less)
  then show ?thesis by simp
qed

lemma u16_eq_max: "((p::u16_t) = 0xffff) = (unat p = 65535)"
  by unat_arith

lemma u16_succ: "(p::u16_t) \<noteq> 0xffff \<Longrightarrow> unat (p + 1) = unat p + 1"
  using u16_max [of p] by (simp add: unat_word_ariths u16_eq_max)

subsection \<open>The cursor and the search\<close>

text \<open>
  \<open>next_port\<close> is the advance of the cursor at the label \<open>again\<close>; \<open>find_free P m p\<close> is
  the first port not in use (\<open>P\<close>) among the next \<open>m\<close> ports after the cursor \<open>p\<close>.
\<close>

definition next_port :: "u16_t \<Rightarrow> u16_t" where
  "next_port p = (if p = TCP_LOCAL_PORT_RANGE_END then TCP_LOCAL_PORT_RANGE_START else p + 1)"

fun find_free :: "(u16_t \<Rightarrow> bool) \<Rightarrow> nat \<Rightarrow> u16_t \<Rightarrow> u16_t option" where
  "find_free P 0 p = None"
| "find_free P (Suc m) p = (if P (next_port p) then find_free P m (next_port p) else Some (next_port p))"

lemma unat_next_port:
  assumes "49152 \<le> unat p"
  shows "unat (next_port p) = 49152 + (unat p - 49152 + 1) mod 16384"
proof (cases "p = 0xffff")
  case True
  then show ?thesis
    by (simp add: next_port_def TCP_LOCAL_PORT_RANGE_END_def TCP_LOCAL_PORT_RANGE_START_def)
next
  case False
  with u16_max [of p] have lt: "unat p < 65535" by (simp add: u16_eq_max)
  with assms have "(unat p - 49152 + 1) mod 16384 = unat p - 49152 + 1" by simp
  with False assms show ?thesis
    by (simp add: next_port_def TCP_LOCAL_PORT_RANGE_END_def u16_succ)
qed

lemma next_port_in_range: "49152 \<le> unat p \<Longrightarrow> 49152 \<le> unat (next_port p)"
  by (simp add: unat_next_port)

lemma unat_port_after:
  "49152 \<le> unat p \<Longrightarrow> unat ((next_port ^^ k) p) = 49152 + (unat p - 49152 + k) mod 16384"
proof (induction k)
  case 0
  with u16_max [of p] show ?case by simp
next
  case (Suc k)
  let ?q = "(next_port ^^ k) p"
  from Suc have q: "unat ?q = 49152 + (unat p - 49152 + k) mod 16384" by simp
  then have "49152 \<le> unat ?q" by simp
  from unat_next_port [OF this] q
  have "unat (next_port ?q) = 49152 + ((unat p - 49152 + k) mod 16384 + 1) mod 16384" by simp
  also have "((unat p - 49152 + k) mod 16384 + 1) mod 16384 = (unat p - 49152 + Suc k) mod 16384"
    by (simp add: mod_Suc_eq)
  finally show ?case by simp
qed

text \<open>every port of the range is reached within 16384 steps\<close>

lemma port_after_covers:
  assumes p: "49152 \<le> unat p" and q: "49152 \<le> unat q"
  shows "\<exists>j<16384. (next_port ^^ Suc j) p = q"
proof -
  define a b where "a = unat p - 49152" and "b = unat q - 49152"
  define j where "j = (if a < b then b - a - 1 else b + 16383 - a)"
  from u16_max [of p] p have a: "a < 16384" by (simp add: a_def)
  from u16_max [of q] q have b: "b < 16384" by (simp add: b_def)
  from a b have j: "j < 16384" unfolding j_def by arith
  have "a + Suc j = (if a < b then b else b + 16384)" using a b unfolding j_def by arith
  then have "(a + Suc j) mod 16384 = b" using b by simp
  with unat_port_after [OF p, of "Suc j"] q have "unat ((next_port ^^ Suc j) p) = unat q"
    by (simp add: a_def b_def)
  then have "(next_port ^^ Suc j) p = q" by (simp only: word_unat_eq_iff)
  with j show ?thesis by blast
qed

lemma find_free_None:
  "(find_free P m p = None) = (\<forall>j<m. P ((next_port ^^ Suc j) p))"
proof (induction m arbitrary: p)
  case 0
  then show ?case by simp
next
  case (Suc m)
  show ?case
    by (auto simp: Suc.IH funpow_swap1 less_Suc_eq_0_disj)
qed

lemma find_free_Some:
  "find_free P m p = Some q \<Longrightarrow> \<not> P q \<and> (\<exists>j<m. q = (next_port ^^ Suc j) p)"
proof (induction m arbitrary: p)
  case 0
  then show ?case by simp
next
  case (Suc m)
  show ?case
  proof (cases "P (next_port p)")
    case True
    with Suc.prems have "find_free P m (next_port p) = Some q" by simp
    from Suc.IH [OF this] obtain j where "\<not> P q" "j < m" "q = (next_port ^^ Suc j) (next_port p)"
      by blast
    then have "\<not> P q \<and> Suc j < Suc m \<and> q = (next_port ^^ Suc (Suc j)) p"
      by (simp add: funpow_swap1)
    then show ?thesis by blast
  next
    case False
    with Suc.prems have "q = next_port p" by simp
    with False show ?thesis by auto
  qed
qed

subsection \<open>The four lists\<close>

text \<open>
  \<open>pcb_lists s ls bs as ts\<close>: the listen, bound, active and tw lists of the state are the
  chains \<open>ls\<close>, \<open>bs\<close>, \<open>as\<close> and \<open>ts\<close>. \<open>port_in_use s xs port\<close>: a PCB among \<open>xs\<close> has
  the local port \<open>port\<close>.
\<close>

definition pcb_lists :: "tcp_glob \<Rightarrow> addr list \<Rightarrow> addr list \<Rightarrow> addr list \<Rightarrow> addr list \<Rightarrow> bool" where
  "pcb_lists s ls bs as ts =
     (pcb_chain (pcbs s) (tcp_listen_pcbs s) ls \<and> pcb_chain (pcbs s) (tcp_bound_pcbs s) bs \<and>
      pcb_chain (pcbs s) (tcp_active_pcbs s) as \<and> pcb_chain (pcbs s) (tcp_tw_pcbs s) ts)"

definition port_in_use :: "tcp_glob \<Rightarrow> addr list \<Rightarrow> u16_t \<Rightarrow> bool" where
  "port_in_use s xs port = (\<exists>a\<in>set xs. local_port (pcbs s a) = port)"

lemma tcp_port_in_lists_chains:
  assumes "pcb_lists s ls bs as ts"
  shows "tcp_port_in_lists tcp_pcb_lists port (s\<lparr>tcp_port := q\<rparr>)
           = Some (port_in_use s (ls @ bs @ as @ ts) port)"
proof -
  from assms have
    l: "pcb_chain (pcbs s) (tcp_listen_pcbs s) ls" and
    b: "pcb_chain (pcbs s) (tcp_bound_pcbs s) bs" and
    a: "pcb_chain (pcbs s) (tcp_active_pcbs s) as" and
    t: "pcb_chain (pcbs s) (tcp_tw_pcbs s) ts"
    by (simp_all add: pcb_lists_def)
  show ?thesis
    unfolding tcp_pcb_lists_def
    by (auto simp: tcp_port_in_list_chain [OF l] tcp_port_in_list_chain [OF b]
          tcp_port_in_list_chain [OF a] tcp_port_in_list_chain [OF t] port_in_use_def)
qed

lemma tcp_new_port_again_step:
  "tcp_new_port_again n (s\<lparr>tcp_port := p\<rparr>) =
     do {
       hit \<leftarrow> tcp_port_in_lists tcp_pcb_lists (next_port p) (s\<lparr>tcp_port := next_port p\<rparr>);
       if hit
       then (if 16383 < unat (n + 1) then Some (0, s\<lparr>tcp_port := next_port p\<rparr>)
             else tcp_new_port_again (n + 1) (s\<lparr>tcp_port := next_port p\<rparr>))
       else Some (next_port p, s\<lparr>tcp_port := next_port p\<rparr>)
     }"
proof -
  have e: "s\<lparr>tcp_port := p\<rparr>\<lparr>tcp_port :=
              (if tcp_port (s\<lparr>tcp_port := p\<rparr>) = TCP_LOCAL_PORT_RANGE_END
               then TCP_LOCAL_PORT_RANGE_START else tcp_port (s\<lparr>tcp_port := p\<rparr>) + 1)\<rparr>
            = s\<lparr>tcp_port := next_port p\<rparr>"
    by (simp add: next_port_def)
  have lim: "unat TCP_LOCAL_PORT_RANGE_END - unat TCP_LOCAL_PORT_RANGE_START = 16383"
    by (simp add: TCP_LOCAL_PORT_RANGE_END_def TCP_LOCAL_PORT_RANGE_START_def)
  show ?thesis
    by (subst tcp_new_port_again.simps, unfold Let_def e lim, simp cong: if_cong)
qed

lemma tcp_new_port_again_find_free:
  assumes scan: "\<And>q port. tcp_port_in_lists tcp_pcb_lists port (s\<lparr>tcp_port := q\<rparr>) = Some (P port)"
  shows "unat n + m = 16384 \<Longrightarrow> 0 < m \<Longrightarrow>
         tcp_new_port_again n (s\<lparr>tcp_port := p\<rparr>) =
           Some (case find_free P m p of
                   None \<Rightarrow> (0, s\<lparr>tcp_port := (next_port ^^ m) p\<rparr>)
                 | Some q \<Rightarrow> (q, s\<lparr>tcp_port := q\<rparr>))"
proof (induction m arbitrary: n p)
  case 0
  then show ?case by simp
next
  case (Suc m)
  from Suc.prems have n: "unat n = 16383 - m" by simp
  then have "n \<noteq> 0xffff" by (simp add: u16_eq_max)
  then have "unat (n + 1) = unat n + 1" by (rule u16_succ)
  with Suc.prems have n1: "unat (n + 1) = 16384 - m" by arith
  show ?case
  proof (cases "P (next_port p)")
    case False
    then show ?thesis
      by (simp add: tcp_new_port_again_step scan)
  next
    case True
    show ?thesis
    proof (cases "m = 0")
      case True
      with \<open>P (next_port p)\<close> n1 show ?thesis
        by (simp add: tcp_new_port_again_step scan)
    next
      case False
      with n1 Suc.prems have "unat (n + 1) + m = 16384" and "0 < m" by simp_all
      have fp: "(next_port ^^ m) (next_port p) = (next_port ^^ Suc m) p"
        by (simp add: funpow_swap1)
      from Suc.IH [OF \<open>unat (n + 1) + m = 16384\<close> \<open>0 < m\<close>, of "next_port p"]
      have "tcp_new_port_again (n + 1) (s\<lparr>tcp_port := next_port p\<rparr>) =
              Some (case find_free P m (next_port p) of
                      None \<Rightarrow> (0, s\<lparr>tcp_port := (next_port ^^ Suc m) p\<rparr>)
                    | Some q \<Rightarrow> (q, s\<lparr>tcp_port := q\<rparr>))"
        unfolding fp .
      moreover from n1 \<open>0 < m\<close> have "\<not> 16383 < unat (n + 1)" by simp
      ultimately show ?thesis using \<open>P (next_port p)\<close>
        by (simp add: tcp_new_port_again_step [of n] scan)
    qed
  qed
qed

lemma port_after_in_range:
  "TCP_LOCAL_PORT_RANGE_START \<le> p \<Longrightarrow> TCP_LOCAL_PORT_RANGE_START \<le> (next_port ^^ k) p"
  by (simp add: TCP_LOCAL_PORT_RANGE_START_def u16_le unat_port_after)


lemma tcp_new_port_spec:
  assumes lists: "pcb_lists s ls bs as ts"
    and range: "TCP_LOCAL_PORT_RANGE_START \<le> tcp_port s"
  shows "\<exists>port s'. tcp_new_port s = Some (port, s')
           \<and> (port = 0 \<longleftrightarrow>
                (\<forall>q. TCP_LOCAL_PORT_RANGE_START \<le> q \<and> q \<le> TCP_LOCAL_PORT_RANGE_END
                       \<longrightarrow> port_in_use s (ls @ bs @ as @ ts) q))
           \<and> (port \<noteq> 0 \<longrightarrow>
                TCP_LOCAL_PORT_RANGE_START \<le> port \<and> port \<le> TCP_LOCAL_PORT_RANGE_END
                \<and> \<not> port_in_use s (ls @ bs @ as @ ts) port)
           \<and> (\<exists>c. s' = s\<lparr>tcp_port := c\<rparr> \<and> TCP_LOCAL_PORT_RANGE_START \<le> c)"
proof -
  let ?P = "port_in_use s (ls @ bs @ as @ ts)"
  let ?p = "tcp_port s"
  have top: "\<And>q::u16_t. q \<le> TCP_LOCAL_PORT_RANGE_END"
    by (simp add: TCP_LOCAL_PORT_RANGE_END_def word_le_nat_alt u16_max)
  have pr: "49152 \<le> unat ?p" using range by (simp add: TCP_LOCAL_PORT_RANGE_START_def u16_le)
  have "tcp_new_port_again 0 (s\<lparr>tcp_port := ?p\<rparr>) =
          Some (case find_free ?P 16384 ?p of
                  None \<Rightarrow> (0, s\<lparr>tcp_port := (next_port ^^ 16384) ?p\<rparr>)
                | Some q \<Rightarrow> (q, s\<lparr>tcp_port := q\<rparr>))"
    by (rule tcp_new_port_again_find_free [OF tcp_port_in_lists_chains [OF lists]]) simp_all
  then have np: "tcp_new_port s =
          Some (case find_free ?P 16384 ?p of
                  None \<Rightarrow> (0, s\<lparr>tcp_port := (next_port ^^ 16384) ?p\<rparr>)
                | Some q \<Rightarrow> (q, s\<lparr>tcp_port := q\<rparr>))"
    by (simp add: tcp_new_port_def)
  show ?thesis
  proof (cases "find_free ?P 16384 ?p")
    case None
    then have all: "\<forall>j<16384. ?P ((next_port ^^ Suc j) ?p)" by (simp only: find_free_None)
    have "?P q" if "TCP_LOCAL_PORT_RANGE_START \<le> q" for q
    proof -
      from that have "49152 \<le> unat q" by (simp add: TCP_LOCAL_PORT_RANGE_START_def u16_le)
      from port_after_covers [OF pr this] all show ?thesis by blast
    qed
    with None np port_after_in_range [OF range, of 16384] show ?thesis by auto
  next
    case (Some q)
    from find_free_Some [OF Some] obtain j where nq: "\<not> ?P q" and q: "q = (next_port ^^ Suc j) ?p"
      by blast
    from q port_after_in_range [OF range, of "Suc j"] have qr: "TCP_LOCAL_PORT_RANGE_START \<le> q"
      by simp
    then have "q \<noteq> 0" by (auto simp: TCP_LOCAL_PORT_RANGE_START_def)
    with Some np nq qr top [of q] show ?thesis by auto
  qed
qed

lemma new_port_full_chain:
  "k \<le> 65535 \<Longrightarrow> pcb_chain (pcbs new_port_full) (Some k) [k..<65536]"
proof (induction "65535 - k" arbitrary: k)
  case 0
  then have "k = 65535" by simp
  then show ?case by (simp add: new_port_full_def glob_init_def upt_conv_Cons)
next
  case (Suc d)
  then have k: "k < 65535" and "d = 65535 - Suc k" and "Suc k \<le> 65535" by simp_all
  from Suc.hyps(1) [OF this(2,3)] k show ?case
    by (simp add: new_port_full_def glob_init_def upt_conv_Cons [of k])
qed

lemma new_port_full_used:
  assumes "TCP_LOCAL_PORT_RANGE_START \<le> q"
  shows "port_in_use new_port_full ([] @ all_port_addrs @ [] @ []) q"
proof -
  from assms have "49152 \<le> unat q" by (simp add: TCP_LOCAL_PORT_RANGE_START_def u16_le)
  moreover have "unat q < 65536" using u16_max [of q] by simp
  ultimately have "unat q \<in> set all_port_addrs" unfolding all_port_addrs_def set_upt by simp
  moreover have "local_port (pcbs new_port_full (unat q)) = q"
    by (simp add: new_port_full_def glob_init_def)
  ultimately show ?thesis unfolding port_in_use_def by auto
qed

lemma new_port_full_lists: "pcb_lists new_port_full [] all_port_addrs [] []"
proof -
  have h: "tcp_bound_pcbs new_port_full = Some 49152"
    by (simp add: new_port_full_def glob_init_def)
  have "pcb_chain (pcbs new_port_full) (Some 49152) [49152..<65536]"
    by (rule new_port_full_chain) simp
  then have "pcb_chain (pcbs new_port_full) (tcp_bound_pcbs new_port_full) all_port_addrs"
    unfolding all_port_addrs_def h .
  moreover have "tcp_listen_pcbs new_port_full = None" "tcp_active_pcbs new_port_full = None"
    "tcp_tw_pcbs new_port_full = None"
    by (simp_all add: new_port_full_def glob_init_def)
  ultimately show ?thesis unfolding pcb_lists_def by simp
qed


text \<open>
  C8: the four lists being chains and the cursor being in the range 49152 to 65535 (it
  starts there, and \<open>tcp_new_port\<close> keeps it there), \<open>tcp_new_port\<close> returns; it returns 0
  exactly when every port of the range is the local port of a PCB on one of the four
  lists, and otherwise a port of the range that no PCB on the lists holds. Only the
  cursor changes.
\<close>

theorem tcp_new_port_free_or_full:
  assumes lists: "pcb_lists s ls bs as ts"
    and range: "TCP_LOCAL_PORT_RANGE_START \<le> tcp_port s"
  shows "\<exists>port s'. tcp_new_port s = Some (port, s')
           \<and> (port = 0 \<longleftrightarrow>
                (\<forall>q. TCP_LOCAL_PORT_RANGE_START \<le> q \<and> q \<le> TCP_LOCAL_PORT_RANGE_END
                       \<longrightarrow> port_in_use s (ls @ bs @ as @ ts) q))
           \<and> (port \<noteq> 0 \<longrightarrow>
                TCP_LOCAL_PORT_RANGE_START \<le> port \<and> port \<le> TCP_LOCAL_PORT_RANGE_END
                \<and> \<not> port_in_use s (ls @ bs @ as @ ts) port)
           \<and> (\<exists>c. s' = s\<lparr>tcp_port := c\<rparr> \<and> TCP_LOCAL_PORT_RANGE_START \<le> c)"
  using lists range by (rule tcp_new_port_spec)

theorem tcp_new_port_free_or_full_witness:
  "pcb_lists new_port_ex [] [2] [] []
   \<and> TCP_LOCAL_PORT_RANGE_START \<le> tcp_port new_port_ex
   \<and> (\<exists>port s'. tcp_new_port new_port_ex = Some (port, s') \<and> port \<noteq> 0
         \<and> TCP_LOCAL_PORT_RANGE_START \<le> port \<and> port \<le> TCP_LOCAL_PORT_RANGE_END
         \<and> local_port (pcbs new_port_ex 2) \<noteq> port)
   \<and> pcb_lists new_port_full [] all_port_addrs [] []
   \<and> TCP_LOCAL_PORT_RANGE_START \<le> tcp_port new_port_full
   \<and> (\<exists>s'. tcp_new_port new_port_full = Some (0, s'))"
proof -
  have l: "pcb_lists new_port_ex [] [2] [] []"
    by (simp add: pcb_lists_def new_port_ex_def glob_init_def pcb_zero_def)
  have r: "TCP_LOCAL_PORT_RANGE_START \<le> tcp_port new_port_ex"
    by (simp add: new_port_ex_def glob_init_def)
  have free: "\<not> port_in_use new_port_ex ([] @ [2] @ [] @ []) TCP_LOCAL_PORT_RANGE_START"
    by (simp add: port_in_use_def new_port_ex_def glob_init_def TCP_LOCAL_PORT_RANGE_START_def)
  have top: "TCP_LOCAL_PORT_RANGE_START \<le> TCP_LOCAL_PORT_RANGE_END"
    by (simp add: TCP_LOCAL_PORT_RANGE_START_def TCP_LOCAL_PORT_RANGE_END_def)
  from tcp_new_port_free_or_full [OF l r] free top
  have a: "\<exists>port s'. tcp_new_port new_port_ex = Some (port, s') \<and> port \<noteq> 0
         \<and> TCP_LOCAL_PORT_RANGE_START \<le> port \<and> port \<le> TCP_LOCAL_PORT_RANGE_END
         \<and> local_port (pcbs new_port_ex 2) \<noteq> port"
    by (auto simp: port_in_use_def)
  have r2: "TCP_LOCAL_PORT_RANGE_START \<le> tcp_port new_port_full"
    by (simp add: new_port_full_def glob_init_def)
  from tcp_new_port_free_or_full [OF new_port_full_lists r2] new_port_full_used
  have b: "\<exists>s'. tcp_new_port new_port_full = Some (0, s')"
    by blast
  from l r a new_port_full_lists r2 b show ?thesis by blast
qed

section \<open>tcp_bind with port 0\<close>

lemma err_codes_distinct:
  "ERR_OK \<noteq> ERR_USE" "ERR_BUF \<noteq> ERR_USE" "ERR_OK \<noteq> ERR_BUF" "ERR_RTE \<noteq> ERR_OK"
  "ERR_VAL \<noteq> ERR_OK" "ERR_BUF \<noteq> ERR_OK" "ERR_USE \<noteq> ERR_OK" "ERR_VAL \<noteq> ERR_USE"
  by (simp_all add: ERR_OK_def ERR_USE_def ERR_BUF_def ERR_RTE_def ERR_VAL_def)


text \<open>
  C10: \<open>tcp_bind(pcb, ipaddr, 0)\<close> with an address of the version of the PCB, in a state
  as for C8. The call returns what \<open>tcp_new_port\<close> decides, whatever the PCBs on the lists
  hold: \<open>ERR_BUF\<close> when \<open>tcp_new_port\<close> returns 0, and otherwise \<open>ERR_OK\<close> with the PCB
  at the head of the bound list, in front of the old head, carrying the new port; never
  \<open>ERR_USE\<close>.
\<close>

theorem tcp_bind_port_zero:
  assumes lists: "pcb_lists s ls bs as ts"
    and range: "TCP_LOCAL_PORT_RANGE_START \<le> tcp_port s"
    and vm: "IP_ADDR_PCB_VERSION_MATCH (pcbs s pcb) ipaddr"
  shows "\<exists>np s1. tcp_new_port s = Some (np, s1)
           \<and> (np = 0 \<longrightarrow> tcp_bind pcb ipaddr 0 s = Some (ERR_BUF, s1))
           \<and> (np \<noteq> 0 \<longrightarrow>
                (\<exists>s2. tcp_bind pcb ipaddr 0 s = Some (ERR_OK, s2)
                   \<and> tcp_bound_pcbs s2 = Some pcb
                   \<and> pcb_next (pcbs s2 pcb) = tcp_bound_pcbs s
                   \<and> local_port (pcbs s2 pcb) = np
                   \<and> (pcb \<notin> set bs \<longrightarrow> pcb_chain (pcbs s2) (tcp_bound_pcbs s2) (pcb # bs))))
           \<and> (\<forall>r s'. tcp_bind pcb ipaddr 0 s = Some (r, s') \<longrightarrow> r \<noteq> ERR_USE)"
proof -
  from tcp_new_port_spec [OF lists range] obtain np s1 c where
    np: "tcp_new_port s = Some (np, s1)" and s1: "s1 = s\<lparr>tcp_port := c\<rparr>" by blast
  define s2 where "s2 = (if \<not> ip_addr_isany ipaddr
              then (case ipaddr of None \<Rightarrow> s1 | Some ip \<Rightarrow> upd_pcb pcb (\<lambda>p. p\<lparr>local_ip := ip\<rparr>) s1)
              else s1)"
  define s3 where "s3 = upd_pcb pcb (\<lambda>p. p\<lparr>local_port := np\<rparr>) s2"
  have b0: "np = 0 \<Longrightarrow> tcp_bind pcb ipaddr 0 s = Some (ERR_BUF, s1)"
    using vm np by (simp add: tcp_bind_def)
  have b1: "np \<noteq> 0 \<Longrightarrow> tcp_bind pcb ipaddr 0 s = Some (ERR_OK, tcp_reg L_bound pcb s3)"
    using vm np by (simp add: tcp_bind_def Let_def s2_def s3_def)
  have h2: "tcp_bound_pcbs s2 = tcp_bound_pcbs s"
    by (simp add: s2_def s1 upd_pcb_def split: option.splits)
  have n2: "\<And>a. pcb_next (pcbs s2 a) = pcb_next (pcbs s a)"
    by (simp add: s2_def s1 upd_pcb_def split: option.splits)
  have h: "tcp_bound_pcbs s3 = tcp_bound_pcbs s"
    by (simp add: s3_def h2 upd_pcb_def)
  have nx: "\<And>a. pcb_next (pcbs s3 a) = pcb_next (pcbs s a)"
    by (simp add: s3_def n2 upd_pcb_def)
  from lists have "pcb_chain (pcbs s) (tcp_bound_pcbs s) bs" by (simp add: pcb_lists_def)
  with pcb_chain_cong [of bs "pcbs s3" "pcbs s", OF nx] h
  have c3: "pcb_chain (pcbs s3) (get_head L_bound s3) bs" by simp
  have p1: "tcp_bound_pcbs (tcp_reg L_bound pcb s3) = Some pcb"
    by (metis get_head.simps(2) get_head_tcp_reg)
  have p2: "pcb_next (pcbs (tcp_reg L_bound pcb s3) pcb) = tcp_bound_pcbs s"
    using h by (simp add: pcbs_tcp_reg)
  have p3: "local_port (pcbs (tcp_reg L_bound pcb s3) pcb) = np"
    by (simp add: pcbs_tcp_reg upd_pcb_def s3_def)
  have p4: "pcb \<notin> set bs \<Longrightarrow>
      pcb_chain (pcbs (tcp_reg L_bound pcb s3)) (tcp_bound_pcbs (tcp_reg L_bound pcb s3)) (pcb # bs)"
    using tcp_reg_chain [OF c3, of pcb] p1 by simp
  from np b0 b1 p1 p2 p3 p4 err_codes_distinct(1,2) show ?thesis
    by (cases "np = 0") auto
qed

theorem tcp_bind_port_zero_witness:
  "pcb_lists new_port_ex [] [2] [] []
   \<and> TCP_LOCAL_PORT_RANGE_START \<le> tcp_port new_port_ex
   \<and> IP_ADDR_PCB_VERSION_MATCH (pcbs new_port_ex 3) None
   \<and> (\<exists>s2. tcp_bind 3 None 0 new_port_ex = Some (ERR_OK, s2)
          \<and> tcp_bound_pcbs s2 = Some 3
          \<and> local_port (pcbs s2 3) \<noteq> 0
          \<and> pcb_chain (pcbs s2) (tcp_bound_pcbs s2) [3, 2])
   \<and> pcb_lists new_port_full [] all_port_addrs [] []
   \<and> TCP_LOCAL_PORT_RANGE_START \<le> tcp_port new_port_full
   \<and> IP_ADDR_PCB_VERSION_MATCH (pcbs new_port_full 70000) None
   \<and> (\<exists>s1. tcp_bind 70000 None 0 new_port_full = Some (ERR_BUF, s1))"
proof -
  have l: "pcb_lists new_port_ex [] [2] [] []"
    by (simp add: pcb_lists_def new_port_ex_def glob_init_def pcb_zero_def)
  have r: "TCP_LOCAL_PORT_RANGE_START \<le> tcp_port new_port_ex"
    by (simp add: new_port_ex_def glob_init_def)
  have v: "IP_ADDR_PCB_VERSION_MATCH (pcbs new_port_ex 3) None"
    by (simp add: IP_ADDR_PCB_VERSION_MATCH_def PCB_ISIPV6_def IP_IS_V6_def new_port_ex_def
          glob_init_def pcb_zero_def)
  have free: "\<not> port_in_use new_port_ex ([] @ [2] @ [] @ []) TCP_LOCAL_PORT_RANGE_START"
    by (simp add: port_in_use_def new_port_ex_def glob_init_def TCP_LOCAL_PORT_RANGE_START_def)
  have top: "TCP_LOCAL_PORT_RANGE_START \<le> TCP_LOCAL_PORT_RANGE_END"
    by (simp add: TCP_LOCAL_PORT_RANGE_START_def TCP_LOCAL_PORT_RANGE_END_def)
  from tcp_new_port_spec [OF l r] free top
  obtain np s1 where np: "tcp_new_port new_port_ex = Some (np, s1)" and nz: "np \<noteq> 0"
    by blast
  from tcp_bind_port_zero [OF l r v] np nz
  have a: "\<exists>s2. tcp_bind 3 None 0 new_port_ex = Some (ERR_OK, s2)
          \<and> tcp_bound_pcbs s2 = Some 3
          \<and> local_port (pcbs s2 3) \<noteq> 0
          \<and> pcb_chain (pcbs s2) (tcp_bound_pcbs s2) [3, 2]"
    by auto
  have r2: "TCP_LOCAL_PORT_RANGE_START \<le> tcp_port new_port_full"
    by (simp add: new_port_full_def glob_init_def)
  have v2: "IP_ADDR_PCB_VERSION_MATCH (pcbs new_port_full 70000) None"
    by (simp add: IP_ADDR_PCB_VERSION_MATCH_def PCB_ISIPV6_def IP_IS_V6_def new_port_full_def
          glob_init_def pcb_zero_def)
  from tcp_new_port_spec [OF new_port_full_lists r2] new_port_full_used
  obtain s1' where "tcp_new_port new_port_full = Some (0, s1')" by blast
  with tcp_bind_port_zero [OF new_port_full_lists r2 v2]
  have b: "\<exists>s1. tcp_bind 70000 None 0 new_port_full = Some (ERR_BUF, s1)"
    by auto
  from l r v a new_port_full_lists r2 v2 b show ?thesis by blast
qed

section \<open>The fast timer\<close>

text \<open>
  What the segment layer does to a PCB is a parameter. The loops of this file walk the
  \<open>next\<close> pointers, so the results on them ask that a collaborator leaves the
  \<open>next\<close> pointer of the PCB it works on as it is (\<open>keeps_next\<close>); tcp_out.c never
  writes it.
\<close>

definition keeps_next :: "(tcp_pcb \<Rightarrow> tcp_pcb) \<Rightarrow> bool" where
  "keeps_next f = (\<forall>p. pcb_next (f p) = pcb_next p)"

lemma fasttmr_pcb_other: "b \<noteq> a \<Longrightarrow> pcbs (tcp_fasttmr_pcb ext a s) b = pcbs s b"
  by (simp add: tcp_fasttmr_pcb_def tcp_output_def tcp_ack_now_def upd_pcb_def log_event_def Let_def)

lemma fasttmr_pcb_next:
  "keeps_next (ext_output ext) \<Longrightarrow> pcb_next (pcbs (tcp_fasttmr_pcb ext a s) b) = pcb_next (pcbs s b)"
  by (simp add: tcp_fasttmr_pcb_def tcp_output_def tcp_ack_now_def upd_pcb_def log_event_def Let_def
        keeps_next_def)

lemma fasttmr_pcb_globals:
  "tcp_active_pcbs (tcp_fasttmr_pcb ext a s) = tcp_active_pcbs s"
  "tcp_timer_ctr (tcp_fasttmr_pcb ext a s) = tcp_timer_ctr s"
  by (simp_all add: tcp_fasttmr_pcb_def tcp_output_def tcp_ack_now_def upd_pcb_def log_event_def Let_def)

lemma fasttmr_pcb_due:
  assumes "TF_ACK_DELAY \<in> flags (pcbs s a)" and "last_timer (pcbs s a) \<noteq> tcp_timer_ctr s"
  shows "TF_ACK_DELAY \<notin> flags (pcbs (tcp_fasttmr_pcb ext a s) a)"
    and "TF_ACK_NOW \<notin> flags (pcbs (tcp_fasttmr_pcb ext a s) a)"
    and "trace (tcp_fasttmr_pcb ext a s) = trace s @ [Ev_output a (insert TF_ACK_NOW (flags (pcbs s a)))]"
  using assms
  by (simp_all add: tcp_fasttmr_pcb_def tcp_output_def tcp_ack_now_def upd_pcb_def log_event_def Let_def)

lemma fasttmr_pcb_idle:
  assumes "TF_ACK_DELAY \<notin> flags (pcbs s a)"
  shows "flags (pcbs (tcp_fasttmr_pcb ext a s) a) = flags (pcbs s a)"
    and "trace (tcp_fasttmr_pcb ext a s) = trace s"
  using assms
  by (simp_all add: tcp_fasttmr_pcb_def tcp_output_def tcp_ack_now_def upd_pcb_def log_event_def Let_def)

lemma fasttmr_pcb_trace:
  "\<exists>t. trace (tcp_fasttmr_pcb ext a s) = trace s @ t \<and>
       (\<forall>b fl. Ev_output b fl \<in> set t \<longrightarrow> b = a \<and> TF_ACK_DELAY \<in> flags (pcbs s a))"
  by (simp add: tcp_fasttmr_pcb_def tcp_output_def tcp_ack_now_def upd_pcb_def log_event_def Let_def)

lemma fasttmr_fold_other:
  "a \<notin> set xs \<Longrightarrow> pcbs (fold (tcp_fasttmr_pcb ext) xs s) a = pcbs s a"
  by (induction xs arbitrary: s) (auto simp: fasttmr_pcb_other)

lemma fasttmr_fold_next:
  "keeps_next (ext_output ext) \<Longrightarrow>
   pcb_next (pcbs (fold (tcp_fasttmr_pcb ext) xs s) b) = pcb_next (pcbs s b)"
  by (induction xs arbitrary: s) (auto simp: fasttmr_pcb_next)

lemma fasttmr_fold_globals:
  "tcp_active_pcbs (fold (tcp_fasttmr_pcb ext) xs s) = tcp_active_pcbs s"
  "tcp_timer_ctr (fold (tcp_fasttmr_pcb ext) xs s) = tcp_timer_ctr s"
  by (induction xs arbitrary: s) (auto simp: fasttmr_pcb_globals)

lemma fasttmr_fold_trace:
  "distinct xs \<Longrightarrow>
   \<exists>t. trace (fold (tcp_fasttmr_pcb ext) xs s) = trace s @ t \<and>
       (\<forall>b fl. Ev_output b fl \<in> set t \<longrightarrow> b \<in> set xs \<and> TF_ACK_DELAY \<in> flags (pcbs s b))"
proof (induction xs arbitrary: s)
  case Nil
  then show ?case by simp
next
  case (Cons x xs)
  let ?s1 = "tcp_fasttmr_pcb ext x s"
  from fasttmr_pcb_trace [of ext x s] obtain t1 where
    t1: "trace ?s1 = trace s @ t1"
    and e1: "\<forall>b fl. Ev_output b fl \<in> set t1 \<longrightarrow> b = x \<and> TF_ACK_DELAY \<in> flags (pcbs s x)"
    by blast
  from Cons.prems have d: "distinct xs" and nx: "x \<notin> set xs" by auto
  from Cons.IH [OF d, of ?s1] obtain t2 where
    t2: "trace (fold (tcp_fasttmr_pcb ext) xs ?s1) = trace ?s1 @ t2"
    and e2: "\<forall>b fl. Ev_output b fl \<in> set t2 \<longrightarrow> b \<in> set xs \<and> TF_ACK_DELAY \<in> flags (pcbs ?s1 b)"
    by blast
  have e2': "\<forall>b fl. Ev_output b fl \<in> set t2 \<longrightarrow> b \<in> set xs \<and> TF_ACK_DELAY \<in> flags (pcbs s b)"
  proof (intro allI impI)
    fix b fl assume "Ev_output b fl \<in> set t2"
    with e2 have b: "b \<in> set xs" and f: "TF_ACK_DELAY \<in> flags (pcbs ?s1 b)" by auto
    from b nx have "b \<noteq> x" by auto
    with f b show "b \<in> set xs \<and> TF_ACK_DELAY \<in> flags (pcbs s b)"
      by (simp add: fasttmr_pcb_other)
  qed
  have "trace (fold (tcp_fasttmr_pcb ext) (x # xs) s) = trace s @ (t1 @ t2)"
    using t1 t2 by simp
  moreover have "\<forall>b fl. Ev_output b fl \<in> set (t1 @ t2) \<longrightarrow>
      b \<in> set (x # xs) \<and> TF_ACK_DELAY \<in> flags (pcbs s b)"
    using e1 e2' by auto
  ultimately show ?case by blast
qed

lemma tcp_fasttmr_loop_chain:
  "pcb_chain (pcbs s) p xs \<Longrightarrow> keeps_next (ext_output ext) \<Longrightarrow>
   tcp_fasttmr_loop ext p s = Some (fold (tcp_fasttmr_pcb ext) xs s)"
proof (induction xs arbitrary: p s)
  case Nil
  then show ?case by (subst tcp_fasttmr_loop.simps) simp
next
  case (Cons a as)
  from Cons.prems have p: "p = Some a" and c: "pcb_chain (pcbs s) (pcb_next (pcbs s a)) as" by auto
  let ?s1 = "tcp_fasttmr_pcb ext a s"
  have n: "pcb_next (pcbs ?s1 a) = pcb_next (pcbs s a)"
    by (rule fasttmr_pcb_next [OF Cons.prems(2)])
  have "pcb_chain (pcbs ?s1) (pcb_next (pcbs s a)) as = pcb_chain (pcbs s) (pcb_next (pcbs s a)) as"
    by (rule pcb_chain_cong) (rule fasttmr_pcb_next [OF Cons.prems(2)])
  with c n have "pcb_chain (pcbs ?s1) (pcb_next (pcbs ?s1 a)) as" by simp
  from Cons.IH [OF this Cons.prems(2)] show ?case unfolding p
    by (subst tcp_fasttmr_loop.simps) (simp add: Let_def)
qed

lemma fasttmr_run:
  assumes chain: "pcb_chain (pcbs s) (tcp_active_pcbs s) xs"
    and keeps: "keeps_next (ext_output ext)"
  shows "tcp_fasttmr ext s
           = Some (fold (tcp_fasttmr_pcb ext) xs (s\<lparr>tcp_timer_ctr := tcp_timer_ctr s + 1\<rparr>))"
proof -
  from chain have "pcb_chain (pcbs (s\<lparr>tcp_timer_ctr := tcp_timer_ctr s + 1\<rparr>))
      (tcp_active_pcbs (s\<lparr>tcp_timer_ctr := tcp_timer_ctr s + 1\<rparr>)) xs" by simp
  from tcp_fasttmr_loop_chain [OF this keeps] show ?thesis
    by (simp add: tcp_fasttmr_def Let_def)
qed

lemma fasttmr_fold_at:
  assumes d: "distinct (ys @ a # zs)"
  shows "pcbs (fold (tcp_fasttmr_pcb ext) (ys @ a # zs) s) a
           = pcbs (tcp_fasttmr_pcb ext a (fold (tcp_fasttmr_pcb ext) ys s)) a"
    and "pcbs (fold (tcp_fasttmr_pcb ext) ys s) a = pcbs s a"
proof -
  from d have "a \<notin> set zs" and "a \<notin> set ys" by auto
  then show "pcbs (fold (tcp_fasttmr_pcb ext) (ys @ a # zs) s) a
           = pcbs (tcp_fasttmr_pcb ext a (fold (tcp_fasttmr_pcb ext) ys s)) a"
    and "pcbs (fold (tcp_fasttmr_pcb ext) ys s) a = pcbs s a"
    by (simp_all add: fasttmr_fold_other)
qed

text \<open>
  Claim C6. Let a PCB be on the active list with \<open>TF_ACK_DELAY\<close> set, and not yet
  processed in the tick of the run: \<open>tcp_fasttmr\<close> increments \<open>tcp_timer_ctr\<close> first,
  so the test \<open>last_timer \<noteq> tcp_timer_ctr\<close> of the loop compares with the
  incremented counter. Then one run of \<open>tcp_fasttmr\<close> returns, calls \<open>tcp_output\<close>
  for the PCB with \<open>TF_ACK_NOW\<close> set, and leaves the PCB with neither \<open>TF_ACK_DELAY\<close>
  nor \<open>TF_ACK_NOW\<close>; the run that follows returns too, calls \<open>tcp_output\<close> for this
  PCB not at all, and leaves its flags as they are.
\<close>

theorem fasttmr_delayed_ack:
  assumes chain: "pcb_chain (pcbs s) (tcp_active_pcbs s) xs" and a: "a \<in> set xs"
    and keeps: "keeps_next (ext_output ext)"
    and delay: "TF_ACK_DELAY \<in> flags (pcbs s a)"
    and due: "last_timer (pcbs s a) \<noteq> tcp_timer_ctr s + 1"
  shows "\<exists>s1 s2 t1 t2.
           tcp_fasttmr ext s = Some s1 \<and> tcp_fasttmr ext s1 = Some s2
           \<and> trace s1 = trace s @ t1 \<and> trace s2 = trace s1 @ t2
           \<and> Ev_output a (insert TF_ACK_NOW (flags (pcbs s a))) \<in> set t1
           \<and> TF_ACK_DELAY \<notin> flags (pcbs s1 a) \<and> TF_ACK_NOW \<notin> flags (pcbs s1 a)
           \<and> (\<forall>fl. Ev_output a fl \<notin> set t2)
           \<and> flags (pcbs s2 a) = flags (pcbs s1 a)"
proof -
  let ?f = "tcp_fasttmr_pcb ext"
  let ?s0 = "s\<lparr>tcp_timer_ctr := tcp_timer_ctr s + 1\<rparr>"
  let ?s1 = "fold ?f xs ?s0"
  let ?s1' = "?s1\<lparr>tcp_timer_ctr := tcp_timer_ctr ?s1 + 1\<rparr>"
  let ?s2 = "fold ?f xs ?s1'"
  from chain have d: "distinct xs" by (rule pcb_chain_distinct)
  from split_list [OF a] obtain ys zs where xs: "xs = ys @ a # zs" by blast
  with d have dd: "distinct (ys @ a # zs)" by simp
  have r1: "tcp_fasttmr ext s = Some ?s1" by (rule fasttmr_run [OF chain keeps])
  have "pcb_chain (pcbs ?s1) (tcp_active_pcbs ?s1) xs = pcb_chain (pcbs s) (tcp_active_pcbs s) xs"
    unfolding fasttmr_fold_globals
    by (rule trans [OF pcb_chain_cong]) (simp_all add: fasttmr_fold_next [OF keeps])
  with chain have c1: "pcb_chain (pcbs ?s1) (tcp_active_pcbs ?s1) xs" by simp
  have r2: "tcp_fasttmr ext ?s1 = Some ?s2" by (rule fasttmr_run [OF c1 keeps])
  \<comment> \<open>the first run, at the PCB\<close>
  let ?sa = "fold ?f ys ?s0"
  have pa: "pcbs ?sa a = pcbs s a" using fasttmr_fold_at(2) [OF dd, of ext ?s0] by simp
  have ca: "tcp_timer_ctr ?sa = tcp_timer_ctr s + 1" by (simp add: fasttmr_fold_globals)
  from delay due pa ca have da: "TF_ACK_DELAY \<in> flags (pcbs ?sa a)"
    and ua: "last_timer (pcbs ?sa a) \<noteq> tcp_timer_ctr ?sa" by simp_all
  have p1: "pcbs ?s1 a = pcbs (?f a ?sa) a" unfolding xs by (rule fasttmr_fold_at(1) [OF dd])
  from fasttmr_pcb_due [OF da ua, of ext] p1 pa
  have f1: "TF_ACK_DELAY \<notin> flags (pcbs ?s1 a)" "TF_ACK_NOW \<notin> flags (pcbs ?s1 a)"
    and ev: "trace (?f a ?sa) = trace ?sa @ [Ev_output a (insert TF_ACK_NOW (flags (pcbs s a)))]"
    by simp_all
  from dd have dys: "distinct ys" and dzs: "distinct zs" by auto
  from fasttmr_fold_trace [OF dys, of ext ?s0] obtain ta where
    ta: "trace ?sa = trace ?s0 @ ta" by blast
  from fasttmr_fold_trace [OF dzs, of ext "?f a ?sa"] obtain tz where
    tz: "trace (fold ?f zs (?f a ?sa)) = trace (?f a ?sa) @ tz" by blast
  have t1: "trace ?s1 = trace s @ (ta @ [Ev_output a (insert TF_ACK_NOW (flags (pcbs s a)))] @ tz)"
    unfolding xs using ta tz ev by simp
  \<comment> \<open>the second run\<close>
  from fasttmr_fold_trace [OF d, of ext ?s1'] obtain t2 where
    t2: "trace ?s2 = trace ?s1' @ t2"
    and e2: "\<forall>b fl. Ev_output b fl \<in> set t2 \<longrightarrow> b \<in> set xs \<and> TF_ACK_DELAY \<in> flags (pcbs ?s1' b)"
    by blast
  from e2 f1 have no: "\<forall>fl. Ev_output a fl \<notin> set t2" by auto
  let ?sb = "fold ?f ys ?s1'"
  have pb: "pcbs ?sb a = pcbs ?s1 a" using fasttmr_fold_at(2) [OF dd, of ext ?s1'] by simp
  have p2: "pcbs ?s2 a = pcbs (?f a ?sb) a" unfolding xs [symmetric]
    using fasttmr_fold_at(1) [OF dd, of ext ?s1'] unfolding xs [symmetric] .
  from f1 pb have "TF_ACK_DELAY \<notin> flags (pcbs ?sb a)" by simp
  from fasttmr_pcb_idle(1) [OF this, of ext] p2 pb
  have f2: "flags (pcbs ?s2 a) = flags (pcbs ?s1 a)" by simp
  from t2 have t2': "trace ?s2 = trace ?s1 @ t2" by simp
  from r1 r2 t1 t2' f1 no f2 show ?thesis
    by (intro exI [of _ ?s1] exI [of _ ?s2]
          exI [of _ "ta @ [Ev_output a (insert TF_ACK_NOW (flags (pcbs s a)))] @ tz"] exI [of _ t2])
       simp
qed

theorem fasttmr_delayed_ack_witness:
  "pcb_chain (pcbs fasttmr_ex) (tcp_active_pcbs fasttmr_ex) [2, 3] \<and> 2 \<in> set [2, 3::addr]
   \<and> keeps_next (ext_output ext_quiet)
   \<and> TF_ACK_DELAY \<in> flags (pcbs fasttmr_ex 2)
   \<and> last_timer (pcbs fasttmr_ex 2) \<noteq> tcp_timer_ctr fasttmr_ex + 1
   \<and> (\<exists>s1 s2 t1 t2.
           tcp_fasttmr ext_quiet fasttmr_ex = Some s1 \<and> tcp_fasttmr ext_quiet s1 = Some s2
           \<and> trace s1 = trace fasttmr_ex @ t1 \<and> trace s2 = trace s1 @ t2
           \<and> Ev_output 2 (insert TF_ACK_NOW (flags (pcbs fasttmr_ex 2))) \<in> set t1
           \<and> TF_ACK_DELAY \<notin> flags (pcbs s1 2) \<and> TF_ACK_NOW \<notin> flags (pcbs s1 2)
           \<and> (\<forall>fl. Ev_output 2 fl \<notin> set t2)
           \<and> flags (pcbs s2 2) = flags (pcbs s1 2))"
proof -
  have c: "pcb_chain (pcbs fasttmr_ex) (tcp_active_pcbs fasttmr_ex) [2, 3]"
    by (simp add: fasttmr_ex_def glob_init_def pcb_zero_def)
  have a: "2 \<in> set [2, 3::addr]" by simp
  have k: "keeps_next (ext_output ext_quiet)" by (simp add: keeps_next_def ext_quiet_def)
  have d: "TF_ACK_DELAY \<in> flags (pcbs fasttmr_ex 2)"
    by (simp add: fasttmr_ex_def glob_init_def pcb_zero_def)
  have u: "last_timer (pcbs fasttmr_ex 2) \<noteq> tcp_timer_ctr fasttmr_ex + 1"
    by (simp add: fasttmr_ex_def glob_init_def pcb_zero_def)
  from fasttmr_delayed_ack [OF c a k d u] c a k d u show ?thesis by blast
qed

section \<open>What an operation leaves alone\<close>

text \<open>
  \<open>same_links s s'\<close>: the four lists, the states of the PCBs and the iterator of \<open>s'\<close>
  are those of \<open>s\<close>.
\<close>

definition keeps_state :: "(tcp_pcb \<Rightarrow> tcp_pcb) \<Rightarrow> bool" where
  "keeps_state f = (\<forall>p. state (f p) = state p)"

definition same_links :: "tcp_glob \<Rightarrow> tcp_glob \<Rightarrow> bool" where
  "same_links s s' =
     ((\<forall>l. get_head l s' = get_head l s) \<and>
      (\<forall>a. pcb_next (pcbs s' a) = pcb_next (pcbs s a) \<and> state (pcbs s' a) = state (pcbs s a)) \<and>
      tcp_conn_iter s' = tcp_conn_iter s)"

lemma get_head_updates [simp]:
  "get_head l (s\<lparr>tcp_port := v1\<rparr>) = get_head l s"
  "get_head l (s\<lparr>iss := v2\<rparr>) = get_head l s"
  "get_head l (s\<lparr>tcp_ticks := v3\<rparr>) = get_head l s"
  "get_head l (s\<lparr>tcp_timer := v4\<rparr>) = get_head l s"
  "get_head l (s\<lparr>tcp_timer_ctr := v5\<rparr>) = get_head l s"
  "get_head l (s\<lparr>tcp_input_pcb := v6\<rparr>) = get_head l s"
  "get_head l (s\<lparr>freed := v7\<rparr>) = get_head l s"
  "get_head l (s\<lparr>freed_segs := v8\<rparr>) = get_head l s"
  "get_head l (s\<lparr>trace := v9\<rparr>) = get_head l s"
  "get_head l (s\<lparr>pcbs := v10\<rparr>) = get_head l s"
  by (cases l; simp)+

lemma same_links_refl [simp]: "same_links s s"
  by (simp add: same_links_def)

lemma same_links_trans: "same_links s s' \<Longrightarrow> same_links s' s'' \<Longrightarrow> same_links s s''"
  by (simp add: same_links_def)

lemma same_links_upd_pcb:
  "pcb_next (f (pcbs s a)) = pcb_next (pcbs s a) \<Longrightarrow> state (f (pcbs s a)) = state (pcbs s a) \<Longrightarrow>
   same_links s (upd_pcb a f s)"
  by (simp add: same_links_def pcbs_upd_pcb)

lemma same_links_log_event [simp]: "same_links s (log_event e s)"
  by (simp add: same_links_def)

lemma same_links_tcp_port [simp]: "same_links s (s\<lparr>tcp_port := c\<rparr>)"
  by (simp add: same_links_def)

lemma same_links_iss [simp]: "same_links s (s\<lparr>iss := c\<rparr>)"
  by (simp add: same_links_def)

lemma same_links_chain:
  "same_links s s' \<Longrightarrow> pcb_chain (pcbs s') (get_head l s') xs = pcb_chain (pcbs s) (get_head l s) xs"
proof -
  assume a: "same_links s s'"
  then have "get_head l s' = get_head l s" by (simp add: same_links_def)
  moreover have "pcb_chain (pcbs s') (get_head l s) xs = pcb_chain (pcbs s) (get_head l s) xs"
    using a by (intro pcb_chain_cong) (simp add: same_links_def)
  ultimately show ?thesis by simp
qed

text \<open>
  \<open>tcp_rmv\<close> writes \<open>next\<close> pointers of PCBs of its list and of the PCB it removes, and
  the head of its list; nothing else.
\<close>

lemma tcp_rmv_frame:
  assumes c: "pcb_chain (pcbs s) (get_head l s) xs"
  shows "\<exists>h p. tcp_rmv l a s = Some (set_head l p (s\<lparr>pcbs := h\<rparr>))
           \<and> (\<forall>b. h b = (pcbs s b)\<lparr>pcb_next := pcb_next (h b)\<rparr>)
           \<and> (\<forall>b. b \<notin> set xs \<longrightarrow> b \<noteq> a \<longrightarrow> h b = pcbs s b)
           \<and> pcb_next (h a) = None
           \<and> pcb_chain h p (remove1 a xs)"
proof -
  from tcp_rmv_chain [OF c, of a] obtain s' where
    r: "tcp_rmv l a s = Some s'" and c': "pcb_chain (pcbs s') (get_head l s') (remove1 a xs)"
    by blast
  have shape: "s' = set_head l (get_head l s') (s\<lparr>pcbs := pcbs s'\<rparr>)
     \<and> (\<forall>b. pcbs s' b = (pcbs s b)\<lparr>pcb_next := pcb_next (pcbs s' b)\<rparr>)
     \<and> (\<forall>b. b \<notin> set xs \<longrightarrow> b \<noteq> a \<longrightarrow> pcbs s' b = pcbs s b)
     \<and> pcb_next (pcbs s' a) = None"
  proof (cases "a \<in> set xs")
    case False
    from tcp_rmv_absent [OF c False] r
    have "s' = upd_pcb a (\<lambda>p. p\<lparr>pcb_next := None\<rparr>) s" by simp
    then show ?thesis by (cases l) (simp_all add: upd_pcb_def)
  next
    case True
    from split_list_first [OF True] obtain ys zs where xs: "xs = ys @ a # zs" by blast
    show ?thesis
    proof (cases ys rule: rev_cases)
      case Nil
      with c xs have h: "get_head l s = Some a" by simp
      from tcp_rmv_head [OF h] r
      have "s' = upd_pcb a (\<lambda>p. p\<lparr>pcb_next := None\<rparr>) (set_head l (pcb_next (pcbs s a)) s)" by simp
      then show ?thesis by (cases l) (simp_all add: upd_pcb_def)
    next
      case (snoc ys' t)
      with c xs have c2: "pcb_chain (pcbs s) (get_head l s) (ys' @ t # a # zs)" by simp
      from tcp_rmv_mid [OF c2] r
      have s': "s' = upd_pcb a (\<lambda>p. p\<lparr>pcb_next := None\<rparr>)
                      (upd_pcb t (\<lambda>p. p\<lparr>pcb_next := pcb_next (pcbs s a)\<rparr>) s)" by simp
      have "t \<in> set xs" using xs snoc by simp
      with s' show ?thesis by (cases l) (auto simp: upd_pcb_def)
    qed
  qed
  with r c' show ?thesis
    by (intro exI [of _ "pcbs s'"] exI [of _ "get_head l s'"]) (metis get_head_set_head pcbs_set_head tcp_glob.simps(1))
qed

lemma same_links_lists:
  "same_links s s' \<Longrightarrow> pcb_lists s' ls bs as ts = pcb_lists s ls bs as ts"
  using same_links_chain [of s s' L_listen] same_links_chain [of s s' L_bound]
    same_links_chain [of s s' L_active] same_links_chain [of s s' L_tw]
  by (simp add: pcb_lists_def)

lemma tcp_rmv_bound_lists:
  assumes lists: "pcb_lists s ls bs as ts"
    and d: "distinct (ls @ bs @ as @ ts)"
    and n: "pcb \<notin> set (ls @ as @ ts)"
  shows "\<exists>s'. tcp_rmv L_bound pcb s = Some s' \<and> pcb_lists s' ls (remove1 pcb bs) as ts
           \<and> tcp_conn_iter s' = tcp_conn_iter s \<and> tcp_active_pcbs s' = tcp_active_pcbs s
           \<and> (\<forall>a. state (pcbs s' a) = state (pcbs s a))"
proof -
  from lists have cb: "pcb_chain (pcbs s) (get_head L_bound s) bs" by (simp add: pcb_lists_def)
  from tcp_rmv_frame [OF cb, of pcb] obtain h p where
    r: "tcp_rmv L_bound pcb s = Some (set_head L_bound p (s\<lparr>pcbs := h\<rparr>))"
    and fr: "\<And>b. h b = (pcbs s b)\<lparr>pcb_next := pcb_next (h b)\<rparr>"
    and oth: "\<And>b. b \<notin> set bs \<Longrightarrow> b \<noteq> pcb \<Longrightarrow> h b = pcbs s b"
    and c': "pcb_chain h p (remove1 pcb bs)"
    by blast
  have st: "state (h b) = state (pcbs s b)" for b
  proof -
    have "state (h b) = state ((pcbs s b)\<lparr>pcb_next := pcb_next (h b)\<rparr>)"
      by (rule arg_cong [OF fr])
    then show ?thesis by simp
  qed
  have keep: "pcb_chain h q xs = pcb_chain (pcbs s) q xs"
    if "set xs \<inter> set bs = {}" and "pcb \<notin> set xs" for q xs
  proof (rule pcb_chain_cong)
    fix a assume "a \<in> set xs"
    with that have "a \<notin> set bs" and "a \<noteq> pcb" by auto
    then show "pcb_next (h a) = pcb_next (pcbs s a)" by (simp add: oth)
  qed
  from d n have "set ls \<inter> set bs = {}" "pcb \<notin> set ls" "set as \<inter> set bs = {}" "pcb \<notin> set as"
    "set ts \<inter> set bs = {}" "pcb \<notin> set ts" by auto
  with lists c' have "pcb_lists (set_head L_bound p (s\<lparr>pcbs := h\<rparr>)) ls (remove1 pcb bs) as ts"
    by (simp add: pcb_lists_def keep)
  with r st show ?thesis by simp
qed

lemma tcp_reg_active_lists:
  assumes lists: "pcb_lists s ls bs as ts"
    and n: "pcb \<notin> set (ls @ bs @ as @ ts)"
  shows "pcb_lists (tcp_reg L_active pcb s) ls bs (pcb # as) ts"
proof -
  from lists have "pcb_chain (pcbs s) (get_head L_active s) as" by (simp add: pcb_lists_def)
  from tcp_reg_chain [OF this, of pcb] n
  have "pcb_chain (pcbs (tcp_reg L_active pcb s)) (get_head L_active (tcp_reg L_active pcb s)) (pcb # as)"
    by fastforce
  then have "pcb_chain (pcbs (tcp_reg L_active pcb s)) (tcp_active_pcbs (tcp_reg L_active pcb s)) (pcb # as)"
    by (simp only: get_head.simps)
  moreover have "tcp_listen_pcbs (tcp_reg L_active pcb s) = tcp_listen_pcbs s"
    "tcp_bound_pcbs (tcp_reg L_active pcb s) = tcp_bound_pcbs s"
    "tcp_tw_pcbs (tcp_reg L_active pcb s) = tcp_tw_pcbs s"
    by (simp_all add: tcp_reg_def Let_def upd_pcb_def log_event_def)
  ultimately show ?thesis using lists n
    by (simp add: pcb_lists_def pcbs_tcp_reg pcb_chain_upd_other)
qed

lemma tcp_output_links:
  "keeps_next (ext_output ext) \<Longrightarrow> keeps_state (ext_output ext) \<Longrightarrow> same_links s (tcp_output ext pcb s)"
  by (simp add: tcp_output_def same_links_def keeps_next_def keeps_state_def pcbs_upd_pcb)

section \<open>tcp_connect and the lists\<close>

text \<open>
  The state of \<open>tcp_connect\<close> after the call of \<open>tcp_enqueue_flags\<close>, before the test of
  what it returned.
\<close>

definition connect_prepared ::
  "tcp_opts \<Rightarrow> tcp_ext \<Rightarrow> addr \<Rightarrow> nat option \<Rightarrow> tcp_glob \<Rightarrow> tcp_glob" where
  "connect_prepared cfg ext pcb connected_fn s =
     (let (i, s1) = tcp_next_iss s;
          s2 = upd_pcb pcb (\<lambda>p. p\<lparr>rcv_nxt := 0, snd_nxt := i, lastack := i - 1, snd_lbb := i - 1,
                 rcv_wnd := TCPWND_MIN16 (TCP_WND cfg), rcv_ann_wnd := TCPWND_MIN16 (TCP_WND cfg),
                 rcv_ann_right_edge := 0, snd_wnd := of_nat (TCP_WND cfg),
                 mss := INITIAL_MSS cfg\<rparr>) s1;
          s3 = upd_pcb pcb (\<lambda>p. p\<lparr>mss := ext_eff_send_mss ext (mss p) (local_ip p) (remote_ip p)
                                        (PCB_ISIPV6 p)\<rparr>) s2;
          s4 = upd_pcb pcb (\<lambda>p. p\<lparr>cwnd := 1, ssthresh := of_nat (TCP_WND cfg),
                                  connected := connected_fn\<rparr>) s3
      in upd_pcb pcb (\<lambda>p. snd (ext_enqueue_flags ext p)) (log_event (Ev_enqueue_syn pcb) s4))"

lemma connect_prepared_links:
  assumes "keeps_next (\<lambda>p. snd (ext_enqueue_flags ext p))" "keeps_state (\<lambda>p. snd (ext_enqueue_flags ext p))"
  shows "same_links s (connect_prepared cfg ext pcb cb s)"
  using assms
  by (simp add: connect_prepared_def tcp_next_iss_def same_links_def keeps_next_def keeps_state_def
        pcbs_upd_pcb Let_def)

lemma tcp_connect_scan_list_chain:
  "pcb_chain h p xs \<Longrightarrow>
   tcp_connect_scan_list h p q ip port = Some (\<exists>c\<in>set xs. tcp_connect_conflict q ip port (h c))"
proof (induction xs arbitrary: p)
  case Nil
  then show ?case by (subst tcp_connect_scan_list.simps) simp
next
  case (Cons a as)
  from Cons.prems have p: "p = Some a" and c: "pcb_chain h (pcb_next (h a)) as" by auto
  show ?case unfolding p
    by (subst tcp_connect_scan_list.simps) (simp add: Cons.IH [OF c])
qed

lemma tcp_connect_scan_returns:
  assumes "pcb_lists s ls bs as ts"
  shows "\<exists>b. tcp_connect_scan (drop START_TCP_PCB_LISTS_CONNECTION tcp_pcb_lists) pcb ip port s = Some b"
proof -
  from assms have a: "pcb_chain (pcbs s) (tcp_active_pcbs s) as"
    and t: "pcb_chain (pcbs s) (tcp_tw_pcbs s) ts" by (simp_all add: pcb_lists_def)
  show ?thesis
    by (auto simp: START_TCP_PCB_LISTS_CONNECTION_def tcp_pcb_lists_def
          tcp_connect_scan_list_chain [OF a] tcp_connect_scan_list_chain [OF t])
qed

text \<open>What \<open>tcp_enqueue_flags\<close> returns in \<open>tcp_connect\<close>.\<close>

definition connect_ret :: "tcp_opts \<Rightarrow> tcp_ext \<Rightarrow> addr \<Rightarrow> nat option \<Rightarrow> tcp_glob \<Rightarrow> err_t" where
  "connect_ret cfg ext pcb connected_fn s =
     (let (i, s1) = tcp_next_iss s;
          s2 = upd_pcb pcb (\<lambda>p. p\<lparr>rcv_nxt := 0, snd_nxt := i, lastack := i - 1, snd_lbb := i - 1,
                 rcv_wnd := TCPWND_MIN16 (TCP_WND cfg), rcv_ann_wnd := TCPWND_MIN16 (TCP_WND cfg),
                 rcv_ann_right_edge := 0, snd_wnd := of_nat (TCP_WND cfg),
                 mss := INITIAL_MSS cfg\<rparr>) s1;
          s3 = upd_pcb pcb (\<lambda>p. p\<lparr>mss := ext_eff_send_mss ext (mss p) (local_ip p) (remote_ip p)
                                        (PCB_ISIPV6 p)\<rparr>) s2;
          s4 = upd_pcb pcb (\<lambda>p. p\<lparr>cwnd := 1, ssthresh := of_nat (TCP_WND cfg),
                                  connected := connected_fn\<rparr>) s3
      in fst (ext_enqueue_flags ext (pcbs s4 pcb)))"

lemma tcp_connect_syn_unfold:
  "tcp_connect_syn cfg ext pcb cb old s =
     (if connect_ret cfg ext pcb cb s = ERR_OK
      then do {
             s7 \<leftarrow> (if old \<noteq> 0
                    then tcp_rmv L_bound pcb
                           (upd_pcb pcb (\<lambda>p. p\<lparr>state := SYN_SENT\<rparr>) (connect_prepared cfg ext pcb cb s))
                    else Some (upd_pcb pcb (\<lambda>p. p\<lparr>state := SYN_SENT\<rparr>) (connect_prepared cfg ext pcb cb s)));
             Some (ERR_OK, tcp_output ext pcb (tcp_reg L_active pcb
                     (s7\<lparr>tcp_conn_iter := tcp_iter_will_prepend (tcp_conn_iter s7) pcb (tcp_active_pcbs s7)\<rparr>)))
           }
      else Some (connect_ret cfg ext pcb cb s, connect_prepared cfg ext pcb cb s))"
  by (simp add: tcp_connect_syn_def connect_prepared_def connect_ret_def Let_def split_beta)

text \<open>What the successful end of \<open>tcp_connect\<close> does to the PCB, the lists and the iterator.\<close>

definition connect_linked ::
  "tcp_glob \<Rightarrow> tcp_glob \<Rightarrow> addr \<Rightarrow> addr list \<Rightarrow> addr list \<Rightarrow> addr list \<Rightarrow> addr list \<Rightarrow> bool" where
  "connect_linked s s' pcb ls bs as ts =
     (state (pcbs s' pcb) = SYN_SENT \<and>
      pcb_lists s' ls (remove1 pcb bs) (pcb # as) ts \<and>
      tcp_conn_iter s' = tcp_iter_will_prepend (tcp_conn_iter s) pcb (tcp_active_pcbs s))"

lemma tcp_connect_syn_cases:
  assumes lists: "pcb_lists s ls bs as ts"
    and d: "distinct (ls @ bs @ as @ ts)"
    and n: "pcb \<notin> set (ls @ as @ ts)"
    and fresh: "old = 0 \<Longrightarrow> pcb \<notin> set bs"
    and enq: "keeps_next (\<lambda>p. snd (ext_enqueue_flags ext p))"
             "keeps_state (\<lambda>p. snd (ext_enqueue_flags ext p))"
    and out: "keeps_next (ext_output ext)" "keeps_state (ext_output ext)"
  shows "\<exists>r s'. tcp_connect_syn cfg ext pcb cb old s = Some (r, s')
           \<and> (if r = ERR_OK then connect_linked s s' pcb ls bs as ts else same_links s s')"
proof -
  let ?s5 = "connect_prepared cfg ext pcb cb s"
  let ?s6 = "upd_pcb pcb (\<lambda>p. p\<lparr>state := SYN_SENT\<rparr>) ?s5"
  have l5: "same_links s ?s5" by (rule connect_prepared_links [OF enq])
  then have lists5: "pcb_lists ?s5 ls bs as ts" using lists by (simp add: same_links_lists)
  have h5: "tcp_active_pcbs ?s5 = tcp_active_pcbs s" "tcp_conn_iter ?s5 = tcp_conn_iter s"
    using l5 by (auto simp: same_links_def dest: spec [of _ L_active])
  have lists6: "pcb_lists ?s6 ls bs as ts"
    using lists5 by (simp add: pcb_lists_def upd_pcb_def pcb_chain_upd_same_next)
  have st6: "state (pcbs ?s6 pcb) = SYN_SENT" by (simp add: pcbs_upd_pcb)
  have h6: "tcp_active_pcbs ?s6 = tcp_active_pcbs s" "tcp_conn_iter ?s6 = tcp_conn_iter s"
    using h5 by (simp_all add: upd_pcb_def)
  have "\<exists>s7. (if old \<noteq> 0 then tcp_rmv L_bound pcb ?s6 else Some ?s6) = Some s7
          \<and> pcb_lists s7 ls (remove1 pcb bs) as ts
          \<and> tcp_conn_iter s7 = tcp_conn_iter s \<and> tcp_active_pcbs s7 = tcp_active_pcbs s
          \<and> state (pcbs s7 pcb) = SYN_SENT"
  proof (cases "old = 0")
    case True
    with fresh have "remove1 pcb bs = bs" by (simp add: remove1_idem)
    with True lists6 st6 h6 show ?thesis by simp
  next
    case False
    from tcp_rmv_bound_lists [OF lists6 d n] False st6 h6 show ?thesis by auto
  qed
  then obtain s7 where
    r7: "(if old \<noteq> 0 then tcp_rmv L_bound pcb ?s6 else Some ?s6) = Some s7"
    and lists7: "pcb_lists s7 ls (remove1 pcb bs) as ts"
    and h7: "tcp_conn_iter s7 = tcp_conn_iter s" "tcp_active_pcbs s7 = tcp_active_pcbs s"
    and st7: "state (pcbs s7 pcb) = SYN_SENT"
    by blast
  let ?s8 = "s7\<lparr>tcp_conn_iter := tcp_iter_will_prepend (tcp_conn_iter s7) pcb (tcp_active_pcbs s7)\<rparr>"
  let ?s9 = "tcp_reg L_active pcb ?s8"
  let ?s10 = "tcp_output ext pcb ?s9"
  from lists7 have lists8: "pcb_lists ?s8 ls (remove1 pcb bs) as ts" by (simp add: pcb_lists_def)
  from d have "distinct bs" by simp
  then have "pcb \<notin> set (remove1 pcb bs)" by simp
  with n have "pcb \<notin> set (ls @ remove1 pcb bs @ as @ ts)" by simp
  from tcp_reg_active_lists [OF lists8 this]
  have lists9: "pcb_lists ?s9 ls (remove1 pcb bs) (pcb # as) ts" .
  have l10: "same_links ?s9 ?s10" by (rule tcp_output_links [OF out])
  then have lists10: "pcb_lists ?s10 ls (remove1 pcb bs) (pcb # as) ts"
    using lists9 by (simp add: same_links_lists)
  have "state (pcbs ?s9 pcb) = SYN_SENT" using st7 by (simp add: pcbs_tcp_reg)
  then have st10: "state (pcbs ?s10 pcb) = SYN_SENT" using l10 by (simp add: same_links_def)
  have "tcp_conn_iter ?s9 = tcp_iter_will_prepend (tcp_conn_iter s) pcb (tcp_active_pcbs s)"
    using h7 by simp
  then have it10: "tcp_conn_iter ?s10 = tcp_iter_will_prepend (tcp_conn_iter s) pcb (tcp_active_pcbs s)"
    using l10 by (simp add: same_links_def)
  have ok: "connect_linked s ?s10 pcb ls bs as ts"
    using st10 lists10 it10 by (simp add: connect_linked_def)
  show ?thesis unfolding tcp_connect_syn_unfold using r7 ok l5 by (cases "old = 0") simp_all
qed

lemma connect_linked_pre:
  "same_links s s0 \<Longrightarrow> connect_linked s0 s' pcb ls bs as ts \<Longrightarrow> connect_linked s s' pcb ls bs as ts"
  by (auto simp: connect_linked_def same_links_def dest: spec [of _ L_active])

text \<open>
  \<open>tcp_connect\<close> gets to its route lookup (the address is given, of the version of the PCB,
  and the local address of the PCB is the wildcard), and the lookup finds no netif or no
  local address.
\<close>

definition connect_no_route :: "tcp_ext \<Rightarrow> addr \<Rightarrow> ip_addr option \<Rightarrow> tcp_glob \<Rightarrow> bool" where
  "connect_no_route ext pcb ipaddr s =
     (case ipaddr of
        None \<Rightarrow> False
      | Some ip \<Rightarrow>
          IP_ADDR_PCB_VERSION_MATCH (pcbs s pcb) ipaddr \<and>
          ip_addr_isany (Some (local_ip (pcbs s pcb))) \<and>
          (let (netif, lip) = ext_route_get_local_ip ext (PCB_ISIPV6 (pcbs s pcb))
                                (local_ip (pcbs s pcb)) ip
           in netif = None \<or> lip = None))"

lemma tcp_connect_cases:
  assumes lists: "pcb_lists s ls bs as ts"
    and d: "distinct (ls @ bs @ as @ ts)"
    and n: "pcb \<notin> set (ls @ as @ ts)"
    and fresh: "local_port (pcbs s pcb) = 0 \<Longrightarrow> pcb \<notin> set bs"
    and range: "TCP_LOCAL_PORT_RANGE_START \<le> tcp_port s"
    and enq: "keeps_next (\<lambda>p. snd (ext_enqueue_flags ext p))"
             "keeps_state (\<lambda>p. snd (ext_enqueue_flags ext p))"
    and out: "keeps_next (ext_output ext)" "keeps_state (ext_output ext)"
  shows "\<exists>r s'. tcp_connect cfg ext pcb ipaddr port cb s = Some (r, s')
           \<and> (connect_no_route ext pcb ipaddr s \<longrightarrow> r = ERR_RTE)
           \<and> (if r = ERR_OK then connect_linked s s' pcb ls bs as ts else same_links s s')"
proof (cases "IP_ADDR_PCB_VERSION_MATCH (pcbs s pcb) ipaddr \<and> ipaddr \<noteq> None")
  case False
  then have "tcp_connect cfg ext pcb ipaddr port cb s = Some (ERR_VAL, s)"
    by (auto simp: tcp_connect_def split: option.splits)
  moreover from False have "\<not> connect_no_route ext pcb ipaddr s"
    by (auto simp: connect_no_route_def split: option.splits)
  ultimately show ?thesis by (simp add: err_codes_distinct)
next
  case True
  then obtain ip where ip: "ipaddr = Some ip" and vm: "IP_ADDR_PCB_VERSION_MATCH (pcbs s pcb) (Some ip)"
    by auto
  let ?s2 = "upd_pcb pcb (\<lambda>p. p\<lparr>remote_port := port\<rparr>) (upd_pcb pcb (\<lambda>p. p\<lparr>remote_ip := ip\<rparr>) s)"
  let ?p2 = "pcbs ?s2 pcb"
  have l2: "same_links s ?s2" by (simp add: same_links_def pcbs_upd_pcb)
  have p2: "local_ip ?p2 = local_ip (pcbs s pcb)" "remote_ip ?p2 = ip"
    "PCB_ISIPV6 ?p2 = PCB_ISIPV6 (pcbs s pcb)" "local_port ?p2 = local_port (pcbs s pcb)"
    by (simp_all add: pcbs_upd_pcb PCB_ISIPV6_def)
  obtain netif lip where
    rt: "ext_route_get_local_ip ext (PCB_ISIPV6 (pcbs s pcb)) (local_ip (pcbs s pcb)) ip = (netif, lip)"
    by (cases "ext_route_get_local_ip ext (PCB_ISIPV6 (pcbs s pcb)) (local_ip (pcbs s pcb)) ip")
  show ?thesis
  proof (cases "ip_addr_isany (Some (local_ip (pcbs s pcb))) \<and> (netif = None \<or> lip = None)")
    case True
    with vm p2 rt have "tcp_connect cfg ext pcb ipaddr port cb s = Some (ERR_RTE, ?s2)"
      unfolding ip by (simp add: tcp_connect_def Let_def)
    with l2 show ?thesis by (simp add: err_codes_distinct)
  next
    case False
    with vm rt have nr: "\<not> connect_no_route ext pcb ipaddr s"
      unfolding ip by (simp add: connect_no_route_def)
    let ?s3 = "if ip_addr_isany (Some (local_ip ?p2))
               then (case lip of None \<Rightarrow> ?s2 | Some a \<Rightarrow> upd_pcb pcb (\<lambda>p. p\<lparr>local_ip := a\<rparr>) ?s2)
               else ?s2"
    have "same_links ?s2 ?s3"
      by (simp add: same_links_def pcbs_upd_pcb split: option.splits)
    with l2 have l3: "same_links s ?s3" by (rule same_links_trans)
    have port3: "local_port (pcbs ?s3 pcb) = local_port (pcbs s pcb)"
      by (simp add: pcbs_upd_pcb split: option.splits)
    have range3: "TCP_LOCAL_PORT_RANGE_START \<le> tcp_port ?s3"
      using range by (simp add: upd_pcb_def split: option.splits)
    from l3 lists have lists3: "pcb_lists ?s3 ls bs as ts" by (simp add: same_links_lists)
    have "\<exists>r s'. (if local_port (pcbs ?s3 pcb) = 0
                  then do {
                         (np, s4) \<leftarrow> tcp_new_port ?s3;
                         let s5 = upd_pcb pcb (\<lambda>p. p\<lparr>local_port := np\<rparr>) s4;
                         if np = 0 then Some (ERR_BUF, s5)
                         else tcp_connect_syn cfg ext pcb cb (local_port (pcbs ?s3 pcb)) s5
                       }
                  else do {
                         used \<leftarrow> (if SOF_REUSEADDR \<in> so_options (pcbs ?s3 pcb)
                                  then tcp_connect_scan (drop START_TCP_PCB_LISTS_CONNECTION tcp_pcb_lists)
                                         pcb ip port ?s3
                                  else Some False);
                         if used then Some (ERR_USE, ?s3)
                         else tcp_connect_syn cfg ext pcb cb (local_port (pcbs ?s3 pcb)) ?s3
                       }) = Some (r, s')
            \<and> (if r = ERR_OK then connect_linked s s' pcb ls bs as ts else same_links s s')"
      (is "\<exists>r s'. ?rest = Some (r, s') \<and> ?Q r s'")
    proof (cases "local_port (pcbs s pcb) = 0")
      case True
      from tcp_new_port_spec [OF lists3 range3] obtain np s4 c where
        np: "tcp_new_port ?s3 = Some (np, s4)" and s4: "s4 = ?s3\<lparr>tcp_port := c\<rparr>"
        by blast
      let ?s5 = "upd_pcb pcb (\<lambda>p. p\<lparr>local_port := np\<rparr>) s4"
      have "same_links ?s3 ?s5" unfolding s4 by (simp add: same_links_def pcbs_upd_pcb)
      with l3 have l5: "same_links s ?s5" by (rule same_links_trans)
      show ?thesis
      proof (cases "np = 0")
        case z: True
        with True port3 np have "?rest = Some (ERR_BUF, ?s5)" by simp
        with l5 show ?thesis by (simp add: err_codes_distinct)
      next
        case nz: False
        from l5 lists have lists5: "pcb_lists ?s5 ls bs as ts" by (simp add: same_links_lists)
        from tcp_connect_syn_cases [OF lists5 d n _ enq out, of 0 cfg cb] fresh [OF True]
        obtain r s' where
          r: "tcp_connect_syn cfg ext pcb cb 0 ?s5 = Some (r, s')"
          and q: "if r = ERR_OK then connect_linked ?s5 s' pcb ls bs as ts else same_links ?s5 s'"
          by blast
        from q l5 have "?Q r s'"
          by (auto intro: connect_linked_pre same_links_trans split: if_splits)
        moreover from True port3 np nz r have "?rest = Some (r, s')" by simp
        ultimately show ?thesis by blast
      qed
    next
      case False
      from tcp_connect_scan_returns [OF lists3] obtain b where
        b: "tcp_connect_scan (drop START_TCP_PCB_LISTS_CONNECTION tcp_pcb_lists) pcb ip port ?s3 = Some b"
        by blast
      define used where "used = (SOF_REUSEADDR \<in> so_options (pcbs ?s3 pcb) \<and> b)"
      show ?thesis
      proof (cases used)
        case u: True
        with False port3 b have "?rest = Some (ERR_USE, ?s3)" by (simp add: used_def)
        with l3 show ?thesis by (simp add: err_codes_distinct)
      next
        case nu: False
        from False have "local_port (pcbs s pcb) = 0 \<Longrightarrow> pcb \<notin> set bs" by simp
        from tcp_connect_syn_cases [OF lists3 d n _ enq out, of "local_port (pcbs s pcb)" cfg cb] False
        obtain r s' where
          r: "tcp_connect_syn cfg ext pcb cb (local_port (pcbs s pcb)) ?s3 = Some (r, s')"
          and q: "if r = ERR_OK then connect_linked ?s3 s' pcb ls bs as ts else same_links ?s3 s'"
          by blast
        from q l3 have "?Q r s'"
          by (auto intro: connect_linked_pre same_links_trans split: if_splits)
        moreover from False port3 b nu r have "?rest = Some (r, s')"
          by (auto simp: used_def)
        ultimately show ?thesis by blast
      qed
    qed
    then obtain r s' where rest: "?rest = Some (r, s')" and q: "?Q r s'" by blast
    from False vm p2 rt have "tcp_connect cfg ext pcb ipaddr port cb s = ?rest"
      unfolding ip
      by (cases "ip_addr_isany (Some (local_ip (pcbs s pcb)))"; cases netif; cases lip;
          simp add: tcp_connect_def Let_def cong: if_cong)
    with rest q nr show ?thesis by simp
  qed
qed

lemma tcp_connect_enqueued:
  assumes r: "tcp_connect cfg ext pcb (Some ip) port cb s = Some (r, s')"
    and vm: "IP_ADDR_PCB_VERSION_MATCH (pcbs s pcb) (Some ip)"
    and nr: "\<not> connect_no_route ext pcb (Some ip) s"
    and bound: "local_port (pcbs s pcb) \<noteq> 0"
    and reuse: "SOF_REUSEADDR \<notin> so_options (pcbs s pcb)"
    and ok: "\<And>p. fst (ext_enqueue_flags ext p) = ERR_OK"
  shows "r = ERR_OK"
proof -
  obtain netif lip where
    rt: "ext_route_get_local_ip ext (PCB_ISIPV6 (pcbs s pcb)) (local_ip (pcbs s pcb)) ip = (netif, lip)"
    by (cases "ext_route_get_local_ip ext (PCB_ISIPV6 (pcbs s pcb)) (local_ip (pcbs s pcb)) ip")
  have cr: "connect_ret cfg ext pcb cb t = ERR_OK" for t
    by (simp add: connect_ret_def Let_def split_beta ok)
  from r vm nr bound reuse rt show ?thesis
    by (cases "ip_addr_isany (Some (local_ip (pcbs s pcb)))"; cases netif; cases lip)
       (auto simp: tcp_connect_def Let_def connect_no_route_def pcbs_upd_pcb PCB_ISIPV6_def
          tcp_connect_syn_unfold cr split: bind_splits if_splits)
qed

text \<open>
  Claim C4, amended. Let \<open>tcp_connect\<close> be called on a \<open>CLOSED\<close> PCB that is on none of
  the listen, active and tw lists (it is on the bound list when it has a port, or on no
  list), in a state whose four lists are finite and disjoint and whose port cursor is in
  its range, with collaborators that leave the \<open>next\<close> pointer and the state of a PCB
  alone. Then the call returns, and

  \<^item> when the route lookup is made and finds no route, it returns \<open>ERR_RTE\<close>;
  \<^item> when it returns anything but \<open>ERR_OK\<close>, the PCB is still \<open>CLOSED\<close>, and the four
    lists and the iterator are as they were: a bound PCB is still on the bound list, a
    PCB that was on no list is on none;
  \<^item> when it returns \<open>ERR_OK\<close>, the PCB is in \<open>SYN_SENT\<close>, it is off the bound list and
    at the head of the active list, and the iterator is the one that
    \<open>tcp_iter_will_prepend\<close> makes of the old iterator and the old active list.
\<close>

theorem tcp_connect_lists:
  assumes lists: "pcb_lists s ls bs as ts"
    and d: "distinct (ls @ bs @ as @ ts)"
    and n: "pcb \<notin> set (ls @ as @ ts)"
    and fresh: "local_port (pcbs s pcb) = 0 \<Longrightarrow> pcb \<notin> set bs"
    and closed: "state (pcbs s pcb) = CLOSED"
    and range: "TCP_LOCAL_PORT_RANGE_START \<le> tcp_port s"
    and enq: "keeps_next (\<lambda>p. snd (ext_enqueue_flags ext p))"
             "keeps_state (\<lambda>p. snd (ext_enqueue_flags ext p))"
    and out: "keeps_next (ext_output ext)" "keeps_state (ext_output ext)"
  shows "\<exists>r s'. tcp_connect cfg ext pcb ipaddr port cb s = Some (r, s')
           \<and> (connect_no_route ext pcb ipaddr s \<longrightarrow> r = ERR_RTE)
           \<and> (r \<noteq> ERR_OK \<longrightarrow>
                state (pcbs s' pcb) = CLOSED \<and> pcb_lists s' ls bs as ts
                \<and> tcp_conn_iter s' = tcp_conn_iter s)
           \<and> (r = ERR_OK \<longrightarrow>
                state (pcbs s' pcb) = SYN_SENT \<and> pcb_lists s' ls (remove1 pcb bs) (pcb # as) ts
                \<and> tcp_conn_iter s'
                     = tcp_iter_will_prepend (tcp_conn_iter s) pcb (tcp_active_pcbs s))"
proof -
  from tcp_connect_cases [OF lists d n fresh range enq out, of cfg ipaddr port cb]
  obtain r s' where r: "tcp_connect cfg ext pcb ipaddr port cb s = Some (r, s')"
    and nr: "connect_no_route ext pcb ipaddr s \<longrightarrow> r = ERR_RTE"
    and q: "if r = ERR_OK then connect_linked s s' pcb ls bs as ts else same_links s s'"
    by blast
  have "state (pcbs s' pcb) = CLOSED \<and> pcb_lists s' ls bs as ts \<and> tcp_conn_iter s' = tcp_conn_iter s"
    if "r \<noteq> ERR_OK"
  proof -
    from q that have l: "same_links s s'" by simp
    with lists closed show ?thesis by (simp add: same_links_lists) (simp add: same_links_def)
  qed
  moreover have "state (pcbs s' pcb) = SYN_SENT \<and> pcb_lists s' ls (remove1 pcb bs) (pcb # as) ts
      \<and> tcp_conn_iter s' = tcp_iter_will_prepend (tcp_conn_iter s) pcb (tcp_active_pcbs s)"
    if "r = ERR_OK"
    using q that by (simp add: connect_linked_def)
  ultimately show ?thesis using r nr by blast
qed

theorem tcp_connect_lists_witness:
  "pcb_lists connect_bound_ex [] [2] [] [] \<and> distinct ([] @ [2] @ [] @ ([]::addr list))
   \<and> TCP_LOCAL_PORT_RANGE_START \<le> tcp_port connect_bound_ex
   \<and> keeps_next (\<lambda>p. snd (ext_enqueue_flags ext_quiet p))
   \<and> keeps_state (\<lambda>p. snd (ext_enqueue_flags ext_quiet p))
   \<and> keeps_next (ext_output ext_quiet) \<and> keeps_state (ext_output ext_quiet)
   \<and> state (pcbs connect_bound_ex 3) = CLOSED \<and> state (pcbs connect_bound_ex 2) = CLOSED
   \<and> connect_no_route ext_quiet 3 (Some (IP4 0x0A000001)) connect_bound_ex
   \<and> (\<exists>s'. tcp_connect lwip_opts ext_quiet 3 (Some (IP4 0x0A000001)) 80 None connect_bound_ex
               = Some (ERR_RTE, s')
          \<and> state (pcbs s' 3) = CLOSED \<and> pcb_lists s' [] [2] [] [])
   \<and> (\<exists>s'. tcp_connect lwip_opts ext_routed 2 (Some (IP4 0x0A000001)) 80 None connect_bound_ex
               = Some (ERR_OK, s')
          \<and> state (pcbs s' 2) = SYN_SENT \<and> pcb_lists s' [] [] [2] [])"
proof -
  have l: "pcb_lists connect_bound_ex [] [2] [] []"
    by (simp add: pcb_lists_def connect_bound_ex_def glob_init_def pcb_zero_def)
  have d: "distinct ([] @ [2] @ [] @ ([]::addr list))" by simp
  have n3: "3 \<notin> set ([] @ [] @ ([]::addr list))" and n2: "2 \<notin> set ([] @ [] @ ([]::addr list))"
    by simp_all
  have f3: "local_port (pcbs connect_bound_ex 3) = 0 \<Longrightarrow> 3 \<notin> set [2::addr]" by simp
  have f2: "local_port (pcbs connect_bound_ex 2) = 0 \<Longrightarrow> 2 \<notin> set [2::addr]"
    by (simp add: connect_bound_ex_def)
  have c3: "state (pcbs connect_bound_ex 3) = CLOSED" and c2: "state (pcbs connect_bound_ex 2) = CLOSED"
    by (simp_all add: connect_bound_ex_def pcb_zero_def)
  have r: "TCP_LOCAL_PORT_RANGE_START \<le> tcp_port connect_bound_ex"
    by (simp add: connect_bound_ex_def glob_init_def)
  have e: "keeps_next (\<lambda>p. snd (ext_enqueue_flags ext_quiet p))"
    "keeps_state (\<lambda>p. snd (ext_enqueue_flags ext_quiet p))"
    and o: "keeps_next (ext_output ext_quiet)" "keeps_state (ext_output ext_quiet)"
    by (simp_all add: keeps_next_def keeps_state_def ext_quiet_def)
  have e': "keeps_next (\<lambda>p. snd (ext_enqueue_flags ext_routed p))"
    "keeps_state (\<lambda>p. snd (ext_enqueue_flags ext_routed p))"
    and o': "keeps_next (ext_output ext_routed)" "keeps_state (ext_output ext_routed)"
    by (simp_all add: keeps_next_def keeps_state_def ext_quiet_def ext_routed_def)
  have nr: "connect_no_route ext_quiet 3 (Some (IP4 0x0A000001)) connect_bound_ex"
    by (simp add: connect_no_route_def ext_quiet_def connect_bound_ex_def pcb_zero_def
          IP_ADDR_PCB_VERSION_MATCH_def PCB_ISIPV6_def IP_IS_V6_def ip_addr_isany_def)
  from tcp_connect_lists [OF l d n3 f3 c3 r e o, of lwip_opts "Some (IP4 0x0A000001)" 80 None] nr
  have a: "\<exists>s'. tcp_connect lwip_opts ext_quiet 3 (Some (IP4 0x0A000001)) 80 None connect_bound_ex
               = Some (ERR_RTE, s')
          \<and> state (pcbs s' 3) = CLOSED \<and> pcb_lists s' [] [2] [] []"
    by (auto simp: err_codes_distinct)
  from tcp_connect_lists [OF l d n2 f2 c2 r e' o', of lwip_opts "Some (IP4 0x0A000001)" 80 None]
  obtain r' s' where
    t: "tcp_connect lwip_opts ext_routed 2 (Some (IP4 0x0A000001)) 80 None connect_bound_ex = Some (r', s')"
    and q: "r' = ERR_OK \<longrightarrow> state (pcbs s' 2) = SYN_SENT \<and> pcb_lists s' [] (remove1 2 [2]) [2] []"
    by blast
  have "r' = ERR_OK"
  proof (rule tcp_connect_enqueued [OF t])
    show "IP_ADDR_PCB_VERSION_MATCH (pcbs connect_bound_ex 2) (Some (IP4 0x0A000001))"
      by (simp add: connect_bound_ex_def pcb_zero_def
          IP_ADDR_PCB_VERSION_MATCH_def PCB_ISIPV6_def IP_IS_V6_def)
    show "\<not> connect_no_route ext_routed 2 (Some (IP4 0x0A000001)) connect_bound_ex"
      by (simp add: connect_no_route_def ext_routed_def)
    show "local_port (pcbs connect_bound_ex 2) \<noteq> 0" by (simp add: connect_bound_ex_def)
    show "SOF_REUSEADDR \<notin> so_options (pcbs connect_bound_ex 2)"
      by (simp add: connect_bound_ex_def pcb_zero_def)
    show "\<And>p. fst (ext_enqueue_flags ext_routed p) = ERR_OK"
      by (simp add: ext_routed_def ext_quiet_def)
  qed
  with t q have b: "\<exists>s'. tcp_connect lwip_opts ext_routed 2 (Some (IP4 0x0A000001)) 80 None connect_bound_ex
               = Some (ERR_OK, s')
          \<and> state (pcbs s' 2) = SYN_SENT \<and> pcb_lists s' [] [] [2] []"
    by simp
  from l d r e o c3 c2 nr a b show ?thesis by blast
qed

text \<open>
  Claim C4 as it is stated fails for a bound PCB: \<open>tcp_bind\<close> to port 8080 of the wildcard
  address leaves the PCB \<open>CLOSED\<close>, with a wildcard local address, and on the bound list;
  \<open>tcp_connect\<close> without a route returns \<open>ERR_RTE\<close> and the PCB is still the bound list.
\<close>

theorem tcp_connect_no_route_stays_bound:
  "state (pcbs connect_bound_ex 2) = CLOSED
   \<and> ip_addr_isany (Some (local_ip (pcbs connect_bound_ex 2)))
   \<and> ext_route_get_local_ip ext_quiet (PCB_ISIPV6 (pcbs connect_bound_ex 2))
        (local_ip (pcbs connect_bound_ex 2)) (IP4 0x0A000001) = (None, None)
   \<and> (\<exists>s'. tcp_connect lwip_opts ext_quiet 2 (Some (IP4 0x0A000001)) 80 None connect_bound_ex
              = Some (ERR_RTE, s')
          \<and> state (pcbs s' 2) = CLOSED
          \<and> pcb_chain (pcbs s') (tcp_bound_pcbs s') [2])"
  by (simp add: tcp_connect_def Let_def connect_bound_ex_def glob_init_def pcb_zero_def
        ext_quiet_def upd_pcb_def IP_ADDR_PCB_VERSION_MATCH_def PCB_ISIPV6_def IP_IS_V6_def
        ip_addr_isany_def)

section \<open>The slow timer\<close>

subsection \<open>What the body of the first loop touches\<close>

text \<open>
  The collaborators of \<open>tcp_slowtmr\<close> are asked to leave the \<open>next\<close> pointer and the state
  of the PCB they work on as they are. \<open>touches_only a s s'\<close>: \<open>s'\<close> is \<open>s\<close> but for the
  trace and for fields of the PCB \<open>a\<close> other than its \<open>next\<close> pointer and its state.
\<close>

definition ext_keeps_links :: "tcp_ext \<Rightarrow> bool" where
  "ext_keeps_links ext =
     (keeps_next (ext_output ext) \<and> keeps_state (ext_output ext) \<and>
      keeps_next (ext_rexmit_rto ext) \<and> keeps_state (ext_rexmit_rto ext) \<and>
      keeps_next (\<lambda>p. snd (ext_zero_window_probe ext p)) \<and>
      keeps_state (\<lambda>p. snd (ext_zero_window_probe ext p)) \<and>
      keeps_next (\<lambda>p. snd (ext_keepalive ext p)) \<and>
      keeps_state (\<lambda>p. snd (ext_keepalive ext p)))"

definition touches_only :: "addr \<Rightarrow> tcp_glob \<Rightarrow> tcp_glob \<Rightarrow> bool" where
  "touches_only a s s' =
     (\<exists>f t. s' = s\<lparr>pcbs := (pcbs s)(a := f), trace := t\<rparr> \<and>
            pcb_next f = pcb_next (pcbs s a) \<and> state f = state (pcbs s a))"

lemma touches_only_refl [simp]: "touches_only a s s"
  unfolding touches_only_def by (rule exI [of _ "pcbs s a"], rule exI [of _ "trace s"]) simp

lemma touches_only_trans:
  assumes "touches_only a s s'" and "touches_only a s' s''"
  shows "touches_only a s s''"
proof -
  from assms(1) obtain f t where 1: "s' = s\<lparr>pcbs := (pcbs s)(a := f), trace := t\<rparr>"
    and f: "pcb_next f = pcb_next (pcbs s a)" "state f = state (pcbs s a)"
    unfolding touches_only_def by blast
  from assms(2) obtain g u where 2: "s'' = s'\<lparr>pcbs := (pcbs s')(a := g), trace := u\<rparr>"
    and g: "pcb_next g = pcb_next (pcbs s' a)" "state g = state (pcbs s' a)"
    unfolding touches_only_def by blast
  have "s'' = s\<lparr>pcbs := (pcbs s)(a := g), trace := u\<rparr>" unfolding 2 1 by simp
  moreover from g f have "pcb_next g = pcb_next (pcbs s a)" "state g = state (pcbs s a)"
    unfolding 1 by simp_all
  ultimately show ?thesis unfolding touches_only_def by blast
qed

lemma touches_only_upd:
  "pcb_next (f (pcbs s a)) = pcb_next (pcbs s a) \<Longrightarrow> state (f (pcbs s a)) = state (pcbs s a) \<Longrightarrow>
   touches_only a s (upd_pcb a f s)"
  unfolding touches_only_def upd_pcb_def
  by (rule exI [of _ "f (pcbs s a)"], rule exI [of _ "trace s"]) simp

lemma touches_only_log [simp]: "touches_only a s (log_event e s)"
  unfolding touches_only_def log_event_def
  by (rule exI [of _ "pcbs s a"], rule exI [of _ "trace s @ [e]"]) simp

lemma touches_only_upd_after:
  "touches_only a s s' \<Longrightarrow> pcb_next (f (pcbs s' a)) = pcb_next (pcbs s' a) \<Longrightarrow>
   state (f (pcbs s' a)) = state (pcbs s' a) \<Longrightarrow> touches_only a s (upd_pcb a f s')"
  by (rule touches_only_trans [OF _ touches_only_upd])

lemma touches_only_log_after: "touches_only a s s' \<Longrightarrow> touches_only a s (log_event e s')"
  by (rule touches_only_trans [OF _ touches_only_log])

lemma tcp_slowtmr_persist_touches:
  assumes "keeps_next (\<lambda>p. snd (ext_zero_window_probe ext p))"
    and "keeps_state (\<lambda>p. snd (ext_zero_window_probe ext p))"
  shows "touches_only a s (tcp_slowtmr_persist ext oob a s)"
  using assms unfolding tcp_slowtmr_persist_def Let_def keeps_next_def keeps_state_def
  by (auto intro!: touches_only_upd_after touches_only_log_after touches_only_upd)

lemma tcp_slowtmr_rexmit_touches:
  assumes "keeps_next (ext_rexmit_rto ext)" and "keeps_state (ext_rexmit_rto ext)"
  shows "touches_only a s (tcp_slowtmr_rexmit ext oob a s)"
  using assms unfolding tcp_slowtmr_rexmit_def Let_def keeps_next_def keeps_state_def
  by (auto intro!: touches_only_upd_after touches_only_log_after touches_only_upd)

lemma tcp_slowtmr_active_pcb_shape:
  assumes ext: "ext_keeps_links ext"
  shows "\<exists>s2 rst. touches_only a s s2 \<and>
           (tcp_slowtmr_active_pcb cfg ext oob a s = Some (tcp_output ext a s2) \<or>
            tcp_slowtmr_active_pcb cfg ext oob a s
              = tcp_pcb_free ext a rst (prev (tcp_conn_iter s))
                  (tcp_report_err a ERR_ABRT
                     (upd_pcb a (\<lambda>p. p\<lparr>flags := flags p - {TF_ACK_DELAY}\<rparr>) s2)))"
proof -
  define s0 where "s0 = upd_pcb a (\<lambda>p. p\<lparr>last_timer := tcp_timer_ctr s\<rparr>) s"
  define p1 where "p1 =
            (if state (pcbs s0 a) = SYN_SENT \<and> nrtx (pcbs s0 a) = TCP_SYNMAXRTX cfg then (1::nat, s0)
             else if nrtx (pcbs s0 a) = TCP_MAXRTX cfg then (1, s0)
             else if 0 < persist_backoff (pcbs s0 a) then (0, tcp_slowtmr_persist ext oob a s0)
             else (0, tcp_slowtmr_rexmit ext oob a s0))"
  define s1 where "s1 = snd p1"
  define age where "age = unat (tcp_ticks s1 - tmr (pcbs s1 a))"
  define keep where "keep = (SOF_KEEPALIVE \<in> so_options (pcbs s1 a) \<and>
                  (state (pcbs s1 a) = ESTABLISHED \<or> state (pcbs s1 a) = CLOSE_WAIT))"
  define keep_timeout where "keep_timeout = (keep \<and>
                  unat (keep_idle (pcbs s1 a) + keep_cnt (pcbs s1 a) * keep_intvl (pcbs s1 a))
                    div TCP_SLOW_INTERVAL cfg < age)"
  define keep_probe where "keep_probe = (keep \<and> \<not> keep_timeout \<and>
                  unat (keep_idle (pcbs s1 a) + ucast (keep_cnt_sent (pcbs s1 a)) * keep_intvl (pcbs s1 a))
                    div TCP_SLOW_INTERVAL cfg < age)"
  define s2 where "s2 = (if keep_probe
                then (let r = fst (ext_keepalive ext (pcbs s1 a));
                          s' = upd_pcb a (\<lambda>p. snd (ext_keepalive ext p))
                                 (log_event (Ev_keepalive a) s1)
                      in if r = ERR_OK
                         then upd_pcb a (\<lambda>p. p\<lparr>keep_cnt_sent := keep_cnt_sent p + 1\<rparr>) s'
                         else s')
                else s1)"
  from ext have e: "keeps_next (ext_rexmit_rto ext)" "keeps_state (ext_rexmit_rto ext)"
      "keeps_next (\<lambda>p. snd (ext_zero_window_probe ext p))"
      "keeps_state (\<lambda>p. snd (ext_zero_window_probe ext p))"
      "keeps_next (\<lambda>p. snd (ext_keepalive ext p))"
      "keeps_state (\<lambda>p. snd (ext_keepalive ext p))"
    by (simp_all add: ext_keeps_links_def)
  have t0: "touches_only a s s0" unfolding s0_def by (rule touches_only_upd) simp_all
  have t01: "touches_only a s0 s1"
    unfolding s1_def p1_def
    by (simp add: tcp_slowtmr_persist_touches [OF e(3,4)] tcp_slowtmr_rexmit_touches [OF e(1,2)])
  have t12: "touches_only a s1 s2"
    unfolding s2_def Let_def using e(5,6) unfolding keeps_next_def keeps_state_def
    by (auto intro!: touches_only_upd_after touches_only_log_after touches_only_upd)
  have t2: "touches_only a s s2"
    by (rule touches_only_trans [OF touches_only_trans [OF t0 t01] t12])
  then have it: "tcp_conn_iter s2 = tcp_conn_iter s" unfolding touches_only_def by auto
  have it4: "prev (tcp_conn_iter (tcp_report_err a ERR_ABRT
                     (upd_pcb a (\<lambda>p. p\<lparr>flags := flags p - {TF_ACK_DELAY}\<rparr>) s2)))
             = prev (tcp_conn_iter s)"
    by (simp add: tcp_report_err_def Let_def it)
  have "\<exists>c rst. tcp_slowtmr_active_pcb cfg ext oob a s
           = (if c
              then tcp_pcb_free ext a rst (prev (tcp_conn_iter (tcp_report_err a ERR_ABRT
                     (upd_pcb a (\<lambda>p. p\<lparr>flags := flags p - {TF_ACK_DELAY}\<rparr>) s2))))
                  (tcp_report_err a ERR_ABRT
                     (upd_pcb a (\<lambda>p. p\<lparr>flags := flags p - {TF_ACK_DELAY}\<rparr>) s2))
              else Some (tcp_output ext a s2))"
    unfolding tcp_slowtmr_active_pcb_def Let_def split_beta s2_def s1_def p1_def s0_def
      keep_probe_def keep_timeout_def keep_def age_def
    by (intro exI) (rule refl)
  then obtain c rst where "tcp_slowtmr_active_pcb cfg ext oob a s
           = (if c
              then tcp_pcb_free ext a rst (prev (tcp_conn_iter s))
                  (tcp_report_err a ERR_ABRT
                     (upd_pcb a (\<lambda>p. p\<lparr>flags := flags p - {TF_ACK_DELAY}\<rparr>) s2))
              else Some (tcp_output ext a s2))"
    unfolding it4 by blast
  with t2 show ?thesis by (cases c) auto
qed

subsection \<open>The iterator in a scan\<close>

definition list_head :: "addr list \<Rightarrow> addr option" where
  "list_head xs = (case xs of [] \<Rightarrow> None | x # _ \<Rightarrow> Some x)"

definition list_last :: "addr list \<Rightarrow> addr option" where
  "list_last xs = (if xs = [] then None else Some (last xs))"

lemma list_head_simps [simp]: "list_head [] = None" "list_head (x # xs) = Some x"
  by (simp_all add: list_head_def)

lemma list_last_simps [simp]: "list_last [] = None" "list_last (xs @ [x]) = Some x"
  by (simp_all add: list_last_def)

lemma pcb_chain_head: "pcb_chain h p xs \<Longrightarrow> p = list_head xs"
  by (cases xs) simp_all

lemma pcb_chain_append:
  "pcb_chain h p (ys @ zs) \<Longrightarrow> ys \<noteq> [] \<Longrightarrow> pcb_chain h (pcb_next (h (last ys))) zs"
  by (induction ys arbitrary: p) (auto split: if_splits)

lemma pcb_chain_next_last:
  "pcb_chain h p (ys @ zs) \<Longrightarrow> ys \<noteq> [] \<Longrightarrow> pcb_next (h (last ys)) = list_head zs"
  by (rule pcb_chain_head [OF pcb_chain_append])

text \<open>
  The iterator in a scan of the list \<open>l\<close>: the PCBs \<open>ys\<close> were delivered and are still on
  the list, the PCBs \<open>zs\<close> are still to be delivered.
\<close>

definition iter_at :: "tcp_glob \<Rightarrow> pcb_list \<Rightarrow> addr list \<Rightarrow> addr list \<Rightarrow> bool" where
  "iter_at s l ys zs =
     (pcb_chain (pcbs s) (get_head l s) (ys @ zs) \<and>
      (if next_is_current (tcp_conn_iter s)
       then current (tcp_conn_iter s) = list_head zs \<and> prev (tcp_conn_iter s) = list_last ys
       else ys \<noteq> [] \<and> current (tcp_conn_iter s) = Some (last ys) \<and>
            prev (tcp_conn_iter s) = list_last (butlast ys)))"

lemma iter_at_start:
  "pcb_chain (pcbs s) (get_head l s) xs \<Longrightarrow>
   iter_at (s\<lparr>tcp_conn_iter := tcp_iter_start (get_head l s)\<rparr>) l [] xs"
  by (simp add: iter_at_def tcp_iter_start_def pcb_chain_head)

lemma iter_at_next:
  assumes "iter_at s l ys zs"
  shows "tcp_iter_next (pcbs s) (tcp_conn_iter s)
           = Some (list_head zs, \<lparr>current = list_head zs, prev = list_last ys, next_is_current = False\<rparr>)"
proof (cases "next_is_current (tcp_conn_iter s)")
  case True
  with assms show ?thesis by (simp add: iter_at_def tcp_iter_next_def)
next
  case False
  with assms have c: "pcb_chain (pcbs s) (get_head l s) (ys @ zs)" and ne: "ys \<noteq> []"
    and cur: "current (tcp_conn_iter s) = Some (last ys)"
    by (simp_all add: iter_at_def)
  from pcb_chain_next_last [OF c ne] False cur ne show ?thesis
    by (simp add: tcp_iter_next_def list_last_def)
qed

text \<open>The state in the body of the loop, for the PCB \<open>a\<close> that was delivered.\<close>

definition iter_on :: "tcp_glob \<Rightarrow> pcb_list \<Rightarrow> addr list \<Rightarrow> addr \<Rightarrow> addr list \<Rightarrow> bool" where
  "iter_on s l ys a zs =
     (pcb_chain (pcbs s) (get_head l s) (ys @ a # zs) \<and>
      tcp_conn_iter s = \<lparr>current = Some a, prev = list_last ys, next_is_current = False\<rparr>)"

lemma iter_at_deliver:
  "iter_at s l ys (a # zs) \<Longrightarrow>
   iter_on (s\<lparr>tcp_conn_iter := \<lparr>current = Some a, prev = list_last ys, next_is_current = False\<rparr>\<rparr>)
     l ys a zs"
  by (simp add: iter_at_def iter_on_def)

lemma iter_on_kept: "iter_on s l ys a zs \<Longrightarrow> iter_at s l (ys @ [a]) zs"
  by (simp add: iter_at_def iter_on_def)

subsection \<open>The loop over the tw list\<close>

text \<open>What the loop over the tw list may change; \<open>T\<close> holds the PCBs of the tw list.\<close>

definition tw_rel :: "addr set \<Rightarrow> tcp_glob \<Rightarrow> tcp_glob \<Rightarrow> bool" where
  "tw_rel T s s' =
     (tcp_listen_pcbs s' = tcp_listen_pcbs s \<and> tcp_bound_pcbs s' = tcp_bound_pcbs s \<and>
      tcp_active_pcbs s' = tcp_active_pcbs s \<and> tcp_ticks s' = tcp_ticks s \<and>
      tcp_timer_ctr s' = tcp_timer_ctr s \<and>
      (\<forall>b. pcbs s' b = (pcbs s b)\<lparr>pcb_next := pcb_next (pcbs s' b)\<rparr>) \<and>
      (\<forall>b. b \<notin> T \<longrightarrow> pcbs s' b = pcbs s b))"

lemma tw_rel_refl [simp]: "tw_rel T s s"
  by (simp add: tw_rel_def)

lemma tw_rel_iter [simp]: "tw_rel T s (s\<lparr>tcp_conn_iter := it\<rparr>)"
  by (simp add: tw_rel_def)

lemma only_next_trans:
  fixes p p' p'' :: tcp_pcb
  assumes "p' = p\<lparr>pcb_next := n'\<rparr>" and "p'' = p'\<lparr>pcb_next := n''\<rparr>"
  shows "p'' = p\<lparr>pcb_next := pcb_next p''\<rparr>"
  using assms by simp

lemma tw_rel_trans:
  assumes 1: "tw_rel T s s'" and 2: "tw_rel T s' s''"
  shows "tw_rel T s s''"
proof -
  have "pcbs s'' b = (pcbs s b)\<lparr>pcb_next := pcb_next (pcbs s'' b)\<rparr>" for b
  proof (rule only_next_trans)
    from 1 show "pcbs s' b = (pcbs s b)\<lparr>pcb_next := pcb_next (pcbs s' b)\<rparr>"
      by (simp add: tw_rel_def)
    from 2 show "pcbs s'' b = (pcbs s' b)\<lparr>pcb_next := pcb_next (pcbs s'' b)\<rparr>"
      by (simp add: tw_rel_def)
  qed
  with 1 2 show ?thesis by (simp add: tw_rel_def)
qed

lemma tw_rel_mono: "tw_rel T s s' \<Longrightarrow> T \<subseteq> U \<Longrightarrow> tw_rel U s s'"
  by (auto simp: tw_rel_def)

lemma tw_rel_fields:
  assumes "tw_rel T s s'"
  shows "state (pcbs s' b) = state (pcbs s b)" and "tmr (pcbs s' b) = tmr (pcbs s b)"
proof -
  from assms have e: "pcbs s' b = (pcbs s b)\<lparr>pcb_next := pcb_next (pcbs s' b)\<rparr>"
    by (simp add: tw_rel_def)
  have "state (pcbs s' b) = state ((pcbs s b)\<lparr>pcb_next := pcb_next (pcbs s' b)\<rparr>)"
    by (rule arg_cong [OF e])
  then show "state (pcbs s' b) = state (pcbs s b)" by simp
  have "tmr (pcbs s' b) = tmr ((pcbs s b)\<lparr>pcb_next := pcb_next (pcbs s' b)\<rparr>)"
    by (rule arg_cong [OF e])
  then show "tmr (pcbs s' b) = tmr (pcbs s b)" by simp
qed

lemma tcp_pcb_free_tw:
  assumes on: "iter_on s L_tw ys a zs" and st: "state (pcbs s a) = TIME_WAIT"
  shows "\<exists>s'. tcp_pcb_free ext a rst prv s = Some s' \<and> iter_at s' L_tw ys zs
           \<and> tw_rel (set (ys @ a # zs)) s s' \<and> freed s' = freed s @ [a]"
proof -
  define s0 where "s0 = (if tcp_input_pcb s = Some a then s\<lparr>tcp_input_pcb := None\<rparr> else s)"
  have p0: "pcbs s0 = pcbs s" and i0: "tcp_conn_iter s0 = tcp_conn_iter s"
    and h0: "\<And>l. get_head l s0 = get_head l s" and f0: "freed s0 = freed s"
    and k0: "tcp_ticks s0 = tcp_ticks s" "tcp_timer_ctr s0 = tcp_timer_ctr s"
    by (simp_all add: s0_def)
  from on have c: "pcb_chain (pcbs s) (get_head L_tw s) (ys @ a # zs)"
    and it: "tcp_conn_iter s = \<lparr>current = Some a, prev = list_last ys, next_is_current = False\<rparr>"
    by (simp_all add: iter_on_def)
  from c have d: "distinct (ys @ a # zs)" by (rule pcb_chain_distinct)
  from pcb_chain_suffix [OF c] have nx: "pcb_next (pcbs s a) = list_head zs"
    by (simp add: pcb_chain_head)
  let ?it = "\<lparr>current = list_head zs, prev = list_last ys, next_is_current = True\<rparr>"
  have w: "tcp_iter_will_remove (pcbs s0) (tcp_conn_iter s0) a (tcp_tw_pcbs s0) = Some ?it"
    by (simp add: tcp_iter_will_remove_def p0 i0 it nx)
  let ?s1 = "s0\<lparr>tcp_conn_iter := ?it\<rparr>"
  have c1: "pcb_chain (pcbs ?s1) (get_head L_tw ?s1) (ys @ a # zs)"
    using c h0 [of L_tw] by (simp add: p0)
  from tcp_rmv_frame [OF c1, of a] obtain h p where
    r: "tcp_rmv L_tw a ?s1 = Some (set_head L_tw p (?s1\<lparr>pcbs := h\<rparr>))"
    and fr: "\<And>b. h b = (pcbs ?s1 b)\<lparr>pcb_next := pcb_next (h b)\<rparr>"
    and oth: "\<And>b. b \<notin> set (ys @ a # zs) \<Longrightarrow> b \<noteq> a \<Longrightarrow> h b = pcbs ?s1 b"
    and c': "pcb_chain h p (remove1 a (ys @ a # zs))"
    by blast
  from d have "remove1 a (ys @ a # zs) = ys @ zs" by (simp add: remove1_append)
  with c' have c'': "pcb_chain h p (ys @ zs)" by simp
  let ?s' = "memp_free a (set_head L_tw p (?s1\<lparr>pcbs := h\<rparr>))"
  have free: "tcp_pcb_free ext a rst prv s = Some ?s'"
    using st w r unfolding tcp_pcb_free_def s0_def [symmetric] Let_def
    by (simp add: p0)
  have at: "iter_at ?s' L_tw ys zs"
    using c'' by (simp add: iter_at_def memp_free_def)
  have rel: "tw_rel (set (ys @ a # zs)) s ?s'"
    unfolding tw_rel_def using fr oth h0 [of L_listen] h0 [of L_bound] h0 [of L_active] k0
    by (simp add: memp_free_def p0)
  have "freed ?s' = freed s @ [a]" by (simp add: memp_free_def f0)
  with free at rel show ?thesis by blast
qed

text \<open>The test of the second loop of \<open>tcp_slowtmr\<close>.\<close>

definition tw_expired :: "tcp_opts \<Rightarrow> tcp_glob \<Rightarrow> addr \<Rightarrow> bool" where
  "tw_expired cfg s a =
     (2 * TCP_MSL cfg div TCP_SLOW_INTERVAL cfg < unat (tcp_ticks s - tmr (pcbs s a)))"

lemma tw_expired_rel: "tw_rel T s s' \<Longrightarrow> tw_expired cfg s' b = tw_expired cfg s b"
  by (simp add: tw_expired_def tw_rel_fields(2) [of T s s']) (simp add: tw_rel_def)

lemma tcp_slowtmr_tw_loop_chain:
  assumes "iter_at s L_tw ys zs" and "\<forall>b\<in>set (ys @ zs). state (pcbs s b) = TIME_WAIT"
  shows "\<exists>s'. tcp_slowtmr_tw_loop cfg ext s = Some s'
           \<and> pcb_chain (pcbs s') (tcp_tw_pcbs s') (ys @ filter (\<lambda>b. \<not> tw_expired cfg s b) zs)
           \<and> tw_rel (set (ys @ zs)) s s'
           \<and> freed s' = freed s @ filter (tw_expired cfg s) zs"
  using assms
proof (induction zs arbitrary: s ys)
  case Nil
  from iter_at_next [OF Nil.prems(1)]
  have "tcp_slowtmr_tw_loop cfg ext s
          = Some (s\<lparr>tcp_conn_iter := \<lparr>current = None, prev = list_last ys, next_is_current = False\<rparr>\<rparr>)"
    by (subst tcp_slowtmr_tw_loop.simps) simp
  moreover from Nil.prems(1) have "pcb_chain (pcbs s) (tcp_tw_pcbs s) ys" by (simp add: iter_at_def)
  ultimately show ?case by simp
next
  case (Cons a zs)
  let ?it = "\<lparr>current = Some a, prev = list_last ys, next_is_current = False\<rparr>"
  let ?s = "s\<lparr>tcp_conn_iter := ?it\<rparr>"
  from iter_at_next [OF Cons.prems(1)]
  have nx: "tcp_iter_next (pcbs s) (tcp_conn_iter s) = Some (Some a, ?it)" by simp
  have on: "iter_on ?s L_tw ys a zs" by (rule iter_at_deliver [OF Cons.prems(1)])
  have ex: "tw_expired cfg ?s b = tw_expired cfg s b" for b by (simp add: tw_expired_def)
  show ?case
  proof (cases "tw_expired cfg s a")
    case True
    from Cons.prems(2) have "state (pcbs ?s a) = TIME_WAIT" by simp
    from tcp_pcb_free_tw [OF on this, of ext False "prev (tcp_conn_iter ?s)"] obtain s1 where
      fr: "tcp_pcb_free ext a False (prev (tcp_conn_iter ?s)) ?s = Some s1"
      and at1: "iter_at s1 L_tw ys zs"
      and rel1: "tw_rel (set (ys @ a # zs)) ?s s1"
      and freed1: "freed s1 = freed ?s @ [a]"
      by blast
    have rel01: "tw_rel (set (ys @ a # zs)) s s1"
      by (rule tw_rel_trans [OF tw_rel_iter rel1])
    have st1: "\<forall>b\<in>set (ys @ zs). state (pcbs s1 b) = TIME_WAIT"
      using Cons.prems(2) by (simp add: tw_rel_fields(1) [OF rel01])
    from Cons.IH [OF at1 st1] obtain s' where
      lp: "tcp_slowtmr_tw_loop cfg ext s1 = Some s'"
      and ch: "pcb_chain (pcbs s') (tcp_tw_pcbs s') (ys @ filter (\<lambda>b. \<not> tw_expired cfg s1 b) zs)"
      and rel: "tw_rel (set (ys @ zs)) s1 s'"
      and freed: "freed s' = freed s1 @ filter (tw_expired cfg s1) zs"
      by blast
    have e1: "tw_expired cfg s1 = tw_expired cfg s"
      by (rule ext) (rule tw_expired_rel [OF rel01])
    have body: "tcp_slowtmr_tw_pcb cfg ext a ?s = Some s1"
      using True fr by (simp add: tcp_slowtmr_tw_pcb_def tw_expired_def)
    have "tcp_slowtmr_tw_loop cfg ext s = Some s'"
      by (subst tcp_slowtmr_tw_loop.simps) (simp add: nx body lp)
    moreover have "tw_rel (set (ys @ a # zs)) s s'"
      by (rule tw_rel_trans [OF rel01 tw_rel_mono [OF rel]]) auto
    ultimately show ?thesis using ch freed freed1 True by (simp add: e1)
  next
    case False
    have at1: "iter_at ?s L_tw (ys @ [a]) zs" by (rule iter_on_kept [OF on])
    from Cons.prems(2) have st1: "\<forall>b\<in>set ((ys @ [a]) @ zs). state (pcbs ?s b) = TIME_WAIT" by simp
    from Cons.IH [OF at1 st1] obtain s' where
      lp: "tcp_slowtmr_tw_loop cfg ext ?s = Some s'"
      and ch: "pcb_chain (pcbs s') (tcp_tw_pcbs s') ((ys @ [a]) @ filter (\<lambda>b. \<not> tw_expired cfg ?s b) zs)"
      and rel: "tw_rel (set ((ys @ [a]) @ zs)) ?s s'"
      and freed: "freed s' = freed ?s @ filter (tw_expired cfg ?s) zs"
      by blast
    have e1: "tw_expired cfg ?s = tw_expired cfg s" by (rule ext) (rule ex)
    have body: "tcp_slowtmr_tw_pcb cfg ext a ?s = Some ?s"
      using False by (simp add: tcp_slowtmr_tw_pcb_def tw_expired_def)
    have "tcp_slowtmr_tw_loop cfg ext s = Some s'"
      by (subst tcp_slowtmr_tw_loop.simps) (simp add: nx body lp)
    moreover have "tw_rel (set (ys @ a # zs)) s s'"
      by (rule tw_rel_trans [OF tw_rel_iter tw_rel_mono [OF rel]]) auto
    ultimately show ?thesis using ch freed False unfolding e1 by simp
  qed
qed

subsection \<open>The loop over the active list\<close>

text \<open>What the loop over the active list may change; \<open>A\<close> holds the active PCBs.\<close>

definition act_rel :: "addr set \<Rightarrow> tcp_glob \<Rightarrow> tcp_glob \<Rightarrow> bool" where
  "act_rel A s s' =
     (tcp_listen_pcbs s' = tcp_listen_pcbs s \<and> tcp_bound_pcbs s' = tcp_bound_pcbs s \<and>
      tcp_tw_pcbs s' = tcp_tw_pcbs s \<and> tcp_ticks s' = tcp_ticks s \<and>
      tcp_timer_ctr s' = tcp_timer_ctr s \<and>
      (\<forall>b. b \<notin> A \<longrightarrow> pcbs s' b = (pcbs s b)\<lparr>accepts_pending := accepts_pending (pcbs s' b)\<rparr>) \<and>
      (\<forall>b. state (pcbs s' b) = state (pcbs s b)) \<and>
      (\<exists>fr. freed s' = freed s @ fr \<and> set fr \<subseteq> A))"

lemma act_rel_refl [simp]: "act_rel A s s"
  by (simp add: act_rel_def)

lemma act_rel_iter [simp]: "act_rel A s (s\<lparr>tcp_conn_iter := it\<rparr>)"
  by (simp add: act_rel_def)

lemma only_pending_trans:
  fixes p p' p'' :: tcp_pcb
  assumes "p' = p\<lparr>accepts_pending := n'\<rparr>" and "p'' = p'\<lparr>accepts_pending := n''\<rparr>"
  shows "p'' = p\<lparr>accepts_pending := accepts_pending p''\<rparr>"
  using assms by simp

lemma act_rel_trans:
  assumes 1: "act_rel A s s'" and 2: "act_rel A s' s''"
  shows "act_rel A s s''"
proof -
  have "pcbs s'' b = (pcbs s b)\<lparr>accepts_pending := accepts_pending (pcbs s'' b)\<rparr>" if "b \<notin> A" for b
  proof (rule only_pending_trans)
    from 1 that show "pcbs s' b = (pcbs s b)\<lparr>accepts_pending := accepts_pending (pcbs s' b)\<rparr>"
      by (simp add: act_rel_def)
    from 2 that show "pcbs s'' b = (pcbs s' b)\<lparr>accepts_pending := accepts_pending (pcbs s'' b)\<rparr>"
      by (simp add: act_rel_def)
  qed
  moreover from 1 2 obtain fr fr' where "freed s' = freed s @ fr" "set fr \<subseteq> A"
    "freed s'' = freed s' @ fr'" "set fr' \<subseteq> A"
    unfolding act_rel_def by blast
  then have "freed s'' = freed s @ (fr @ fr') \<and> set (fr @ fr') \<subseteq> A" by simp
  then have "\<exists>fr. freed s'' = freed s @ fr \<and> set fr \<subseteq> A" by blast
  ultimately show ?thesis using 1 2 by (simp add: act_rel_def)
qed

lemma act_rel_mono: "act_rel A s s' \<Longrightarrow> A \<subseteq> B \<Longrightarrow> act_rel B s s'"
  unfolding act_rel_def by blast

lemma act_rel_fields:
  assumes "act_rel A s s'" and "b \<notin> A"
  shows "pcb_next (pcbs s' b) = pcb_next (pcbs s b)" and "tmr (pcbs s' b) = tmr (pcbs s b)"
proof -
  from assms have e: "pcbs s' b = (pcbs s b)\<lparr>accepts_pending := accepts_pending (pcbs s' b)\<rparr>"
    by (simp add: act_rel_def)
  have "pcb_next (pcbs s' b) = pcb_next ((pcbs s b)\<lparr>accepts_pending := accepts_pending (pcbs s' b)\<rparr>)"
    by (rule arg_cong [OF e])
  then show "pcb_next (pcbs s' b) = pcb_next (pcbs s b)" by simp
  have "tmr (pcbs s' b) = tmr ((pcbs s b)\<lparr>accepts_pending := accepts_pending (pcbs s' b)\<rparr>)"
    by (rule arg_cong [OF e])
  then show "tmr (pcbs s' b) = tmr (pcbs s b)" by simp
qed

lemma touches_only_act_rel:
  assumes "touches_only a s s'" and "a \<in> A"
  shows "act_rel A s s'"
proof -
  from assms(1) obtain f t where s': "s' = s\<lparr>pcbs := (pcbs s)(a := f), trace := t\<rparr>"
    and f: "state f = state (pcbs s a)"
    unfolding touches_only_def by blast
  show ?thesis unfolding s' act_rel_def using f assms(2) by auto
qed

lemma touches_only_iter_on:
  assumes "touches_only a s s'" and "iter_on s l ys b zs"
  shows "iter_on s' l ys b zs"
proof -
  from assms(1) obtain f t where s': "s' = s\<lparr>pcbs := (pcbs s)(a := f), trace := t\<rparr>"
    and f: "pcb_next f = pcb_next (pcbs s a)"
    unfolding touches_only_def by blast
  have "pcb_chain (pcbs s') (get_head l s') (ys @ b # zs) = pcb_chain (pcbs s) (get_head l s) (ys @ b # zs)"
    unfolding s' using f by (simp add: pcb_chain_upd_same_next)
  with assms(2) show ?thesis unfolding iter_on_def by (simp add: s')
qed

lemma tcp_segs_free_frame: "\<exists>fs. tcp_segs_free xs s = s\<lparr>freed_segs := fs\<rparr>"
proof (induction xs arbitrary: s)
  case Nil
  have "s = s\<lparr>freed_segs := freed_segs s\<rparr>" by simp
  then show ?case by (simp only: tcp_segs_free.simps) (rule exI)
next
  case (Cons x xs)
  from Cons [of "s\<lparr>freed_segs := freed_segs s @ [x]\<rparr>"] show ?case by auto
qed

lemma backlog_accepted_frame:
  "\<exists>h. tcp_backlog_accepted_internal a s = s\<lparr>pcbs := h\<rparr>
     \<and> (\<forall>b. pcb_next (h b) = pcb_next (pcbs s b) \<and> state (h b) = state (pcbs s b))
     \<and> (\<forall>b. b \<noteq> a \<longrightarrow> h b = (pcbs s b)\<lparr>accepts_pending := accepts_pending (h b)\<rparr>)"
proof -
  have "tcp_backlog_accepted_internal a s = s\<lparr>pcbs := pcbs (tcp_backlog_accepted_internal a s)\<rparr>"
    by (simp add: tcp_backlog_accepted_internal_def upd_pcb_def split: option.splits)
  moreover have "pcb_next (pcbs (tcp_backlog_accepted_internal a s) b) = pcb_next (pcbs s b)
      \<and> state (pcbs (tcp_backlog_accepted_internal a s) b) = state (pcbs s b)" for b
    by (simp add: tcp_backlog_accepted_internal_def upd_pcb_def split: option.splits)
  moreover have "pcbs (tcp_backlog_accepted_internal a s) b
      = (pcbs s b)\<lparr>accepts_pending := accepts_pending (pcbs (tcp_backlog_accepted_internal a s) b)\<rparr>"
    if "b \<noteq> a" for b
    using that by (simp add: tcp_backlog_accepted_internal_def upd_pcb_def split: option.splits)
  ultimately show ?thesis by blast
qed

lemma tcp_pcb_purge_frame:
  "\<exists>h fs. tcp_pcb_purge a s = s\<lparr>pcbs := h, freed_segs := fs\<rparr>
     \<and> (\<forall>b. pcb_next (h b) = pcb_next (pcbs s b) \<and> state (h b) = state (pcbs s b))
     \<and> (\<forall>b. b \<noteq> a \<longrightarrow> h b = (pcbs s b)\<lparr>accepts_pending := accepts_pending (h b)\<rparr>)"
proof -
  from backlog_accepted_frame [of a s] obtain h where
    1: "tcp_backlog_accepted_internal a s = s\<lparr>pcbs := h\<rparr>"
    and n: "\<And>b. pcb_next (h b) = pcb_next (pcbs s b)" "\<And>b. state (h b) = state (pcbs s b)"
    and o: "\<And>b. b \<noteq> a \<Longrightarrow> h b = (pcbs s b)\<lparr>accepts_pending := accepts_pending (h b)\<rparr>"
    by blast
  let ?s2 = "upd_pcb a (\<lambda>p. p\<lparr>rtime := - 1\<rparr>) (s\<lparr>pcbs := h\<rparr>)"
  from tcp_segs_free_frame [of "sndq (pcbs ?s2 a)" ?s2] obtain fs where
    3: "tcp_segs_free (sndq (pcbs ?s2 a)) ?s2 = ?s2\<lparr>freed_segs := fs\<rparr>" by blast
  let ?h = "h(a := (h a)\<lparr>rtime := - 1, sndq := [], sndq_last := None, sndq_next := None\<rparr>)"
  have "tcp_pcb_purge a s = s\<lparr>pcbs := ?h, freed_segs := fs\<rparr>"
    unfolding tcp_pcb_purge_def Let_def 1 3 by (simp add: upd_pcb_def)
  moreover have "\<forall>b. pcb_next (?h b) = pcb_next (pcbs s b) \<and> state (?h b) = state (pcbs s b)"
    using n by simp
  moreover have "\<forall>b. b \<noteq> a \<longrightarrow> ?h b = (pcbs s b)\<lparr>accepts_pending := accepts_pending (?h b)\<rparr>"
    using o by simp
  ultimately show ?thesis by blast
qed

lemma touches_only_fields:
  assumes "touches_only a s s'"
  shows "state (pcbs s' b) = state (pcbs s b)" and "pcb_next (pcbs s' b) = pcb_next (pcbs s b)"
    and "tcp_conn_iter s' = tcp_conn_iter s" and "tcp_input_pcb s' = tcp_input_pcb s"
proof -
  from assms obtain f t where s': "s' = s\<lparr>pcbs := (pcbs s)(a := f), trace := t\<rparr>"
    and f: "pcb_next f = pcb_next (pcbs s a)" "state f = state (pcbs s a)"
    unfolding touches_only_def by blast
  from f show "state (pcbs s' b) = state (pcbs s b)" "pcb_next (pcbs s' b) = pcb_next (pcbs s b)"
    "tcp_conn_iter s' = tcp_conn_iter s" "tcp_input_pcb s' = tcp_input_pcb s"
    unfolding s' by simp_all
qed

lemma tcp_output_touches:
  "keeps_next (ext_output ext) \<Longrightarrow> keeps_state (ext_output ext) \<Longrightarrow> touches_only a s (tcp_output ext a s)"
  unfolding tcp_output_def keeps_next_def keeps_state_def
  by (auto intro!: touches_only_upd_after touches_only_log_after)

lemma tcp_report_err_touches: "touches_only a s (tcp_report_err a e s)"
  unfolding tcp_report_err_def Let_def
  by (auto intro!: touches_only_upd_after touches_only_log_after touches_only_upd)

lemma tcp_pcb_free_active:
  assumes on: "iter_on s L_active ys a zs"
    and st: "tcp_state_is_active (state (pcbs s a))"
    and out: "keeps_next (ext_output ext)" "keeps_state (ext_output ext)"
  shows "\<exists>s'. tcp_pcb_free ext a rst (list_last ys) s = Some s' \<and> iter_at s' L_active ys zs
           \<and> act_rel (set (ys @ a # zs)) s s'"
proof -
  let ?A = "set (ys @ a # zs)"
  define s0 where "s0 = (if tcp_input_pcb s = Some a then s\<lparr>tcp_input_pcb := None\<rparr> else s)"
  define sa where "sa = (if TF_ACK_DELAY \<in> flags (pcbs s0 a)
                           then tcp_output ext a
                                  (upd_pcb a (\<lambda>p. p\<lparr>flags := insert TF_ACK_NOW (flags p)\<rparr>) s0)
                           else s0)"
  define sb where "sb = (if rst then tcp_rst a sa else sa)"
  have r0: "act_rel ?A s s0" by (simp add: s0_def act_rel_def)
  have on0: "iter_on s0 L_active ys a zs" using on by (simp add: s0_def iter_on_def)
  have st0: "state (pcbs s0 a) = state (pcbs s a)" by (simp add: s0_def)
  have ta: "touches_only a s0 sa" unfolding sa_def
    by (auto intro!: touches_only_trans [OF touches_only_upd tcp_output_touches [OF out]])
  have "touches_only a sa sb" unfolding sb_def tcp_rst_def Let_def by simp
  with ta have tb: "touches_only a s0 sb" by (rule touches_only_trans)
  have rb: "act_rel ?A s sb"
    by (rule act_rel_trans [OF r0 touches_only_act_rel [OF tb]]) simp
  have onb: "iter_on sb L_active ys a zs" by (rule touches_only_iter_on [OF tb on0])
  then have c: "pcb_chain (pcbs sb) (get_head L_active sb) (ys @ a # zs)"
    and it: "tcp_conn_iter sb = \<lparr>current = Some a, prev = list_last ys, next_is_current = False\<rparr>"
    by (simp_all add: iter_on_def)
  from c have d: "distinct (ys @ a # zs)" by (rule pcb_chain_distinct)
  from pcb_chain_suffix [OF c] have cz: "pcb_chain (pcbs sb) (pcb_next (pcbs sb a)) zs" by simp
  then have nx: "pcb_next (pcbs sb a) = list_head zs" by (rule pcb_chain_head)
  let ?it = "\<lparr>current = list_head zs, prev = list_last ys, next_is_current = True\<rparr>"
  have w: "tcp_iter_will_remove (pcbs sb) (tcp_conn_iter sb) a (tcp_active_pcbs sb) = Some ?it"
    by (simp add: tcp_iter_will_remove_def it nx)
  define sc where "sc = sb\<lparr>tcp_conn_iter := ?it\<rparr>"
  have "\<exists>sd. (case list_last ys of
                Some pr \<Rightarrow> Some (upd_pcb pr (\<lambda>p. p\<lparr>pcb_next := pcb_next (pcbs sc a)\<rparr>) sc)
              | None \<Rightarrow> tcp_rmv L_active a sc) = Some sd
          \<and> pcb_chain (pcbs sd) (tcp_active_pcbs sd) (ys @ zs)
          \<and> tcp_conn_iter sd = ?it \<and> act_rel ?A sb sd"
  proof (cases ys rule: rev_cases)
    case Nil
    with c have h: "get_head L_active sc = Some a" by (simp add: sc_def)
    let ?sd = "upd_pcb a (\<lambda>p. p\<lparr>pcb_next := None\<rparr>) (set_head L_active (pcb_next (pcbs sc a)) sc)"
    from d have "a \<notin> set zs" by simp
    with cz have "pcb_chain (pcbs ?sd) (tcp_active_pcbs ?sd) (ys @ zs)"
      by (simp add: Nil sc_def upd_pcb_def pcb_chain_upd_other)
    moreover have "tcp_conn_iter ?sd = ?it" by (simp add: sc_def upd_pcb_def)
    moreover have "act_rel ?A sb ?sd" by (simp add: act_rel_def sc_def upd_pcb_def)
    ultimately show ?thesis using tcp_rmv_head [OF h] Nil by simp
  next
    case (snoc ys' t)
    let ?sd = "upd_pcb t (\<lambda>p. p\<lparr>pcb_next := pcb_next (pcbs sc a)\<rparr>) sc"
    from c d snoc have "pcb_chain (pcbs sb) (tcp_active_pcbs sb) (ys' @ t # a # zs)"
      and "distinct (ys' @ t # a # zs)" by simp_all
    from chain_unlink [OF this]
    have "pcb_chain (pcbs ?sd) (tcp_active_pcbs ?sd) (ys @ zs)"
      by (simp add: snoc sc_def upd_pcb_def)
    moreover have "tcp_conn_iter ?sd = ?it" by (simp add: sc_def upd_pcb_def)
    moreover have "act_rel ?A sb ?sd" by (simp add: act_rel_def sc_def upd_pcb_def snoc)
    ultimately show ?thesis using snoc by simp
  qed
  then obtain sd where
    sd: "(case list_last ys of
                Some pr \<Rightarrow> Some (upd_pcb pr (\<lambda>p. p\<lparr>pcb_next := pcb_next (pcbs sc a)\<rparr>) sc)
              | None \<Rightarrow> tcp_rmv L_active a sc) = Some sd"
    and cd: "pcb_chain (pcbs sd) (tcp_active_pcbs sd) (ys @ zs)"
    and itd: "tcp_conn_iter sd = ?it" and rd: "act_rel ?A sb sd"
    by blast
  from tcp_pcb_purge_frame [of a sd] obtain h fs where
    pu: "tcp_pcb_purge a sd = sd\<lparr>pcbs := h, freed_segs := fs\<rparr>"
    and hn: "\<And>b. pcb_next (h b) = pcb_next (pcbs sd b)" "\<And>b. state (h b) = state (pcbs sd b)"
    and ho: "\<And>b. b \<noteq> a \<Longrightarrow> h b = (pcbs sd b)\<lparr>accepts_pending := accepts_pending (h b)\<rparr>"
    by blast
  let ?s' = "memp_free a (sd\<lparr>pcbs := h, freed_segs := fs\<rparr>)"
  have "pcb_chain h (tcp_active_pcbs sd) (ys @ zs) = pcb_chain (pcbs sd) (tcp_active_pcbs sd) (ys @ zs)"
    by (rule pcb_chain_cong) (rule hn)
  with cd itd have at: "iter_at ?s' L_active ys zs"
    by (simp add: iter_at_def memp_free_def)
  have "act_rel ?A sd ?s'" unfolding act_rel_def memp_free_def using hn ho by auto
  with rb rd have rel: "act_rel ?A s ?s'" by (blast intro: act_rel_trans)
  from st st0 have na: "state (pcbs s0 a) \<noteq> CLOSED" by (cases "state (pcbs s a)") simp_all
  from st st0 have act0: "tcp_state_is_active (state (pcbs s0 a))" by simp
  have eq: "tcp_pcb_free ext a rst (list_last ys) s =
      do {
        s1 \<leftarrow> do {
                 it \<leftarrow> tcp_iter_will_remove (pcbs sb) (tcp_conn_iter sb) a (tcp_active_pcbs sb);
                 sd \<leftarrow> (case list_last ys of
                         Some pr \<Rightarrow> Some (upd_pcb pr (\<lambda>p. p\<lparr>pcb_next := pcb_next (pcbs (sb\<lparr>tcp_conn_iter := it\<rparr>) a)\<rparr>)
                                            (sb\<lparr>tcp_conn_iter := it\<rparr>))
                       | None \<Rightarrow> tcp_rmv L_active a (sb\<lparr>tcp_conn_iter := it\<rparr>));
                 Some (tcp_pcb_purge a sd)
               };
        Some (memp_free a s1)
      }"
    unfolding tcp_pcb_free_def Let_def
    unfolding s0_def [symmetric]
    unfolding sa_def [symmetric]
    unfolding sb_def [symmetric]
    using na act0 by simp
  have "tcp_pcb_free ext a rst (list_last ys) s = Some ?s'"
    unfolding eq w using sd pu unfolding sc_def by simp
  with at rel show ?thesis by blast
qed

lemma tcp_slowtmr_active_pcb_step:
  assumes on: "iter_on s L_active ys a zs"
    and st: "tcp_state_is_active (state (pcbs s a))"
    and ext: "ext_keeps_links ext"
  shows "\<exists>s'. tcp_slowtmr_active_pcb cfg ext oob a s = Some s'
           \<and> act_rel (set (ys @ a # zs)) s s'
           \<and> (iter_at s' L_active (ys @ [a]) zs \<or> iter_at s' L_active ys zs)"
proof -
  let ?A = "set (ys @ a # zs)"
  from ext have out: "keeps_next (ext_output ext)" "keeps_state (ext_output ext)"
    by (simp_all add: ext_keeps_links_def)
  from on have pr: "prev (tcp_conn_iter s) = list_last ys" by (simp add: iter_on_def)
  from tcp_slowtmr_active_pcb_shape [OF ext, of a s cfg oob] obtain s2 rst where
    t2: "touches_only a s s2"
    and r: "tcp_slowtmr_active_pcb cfg ext oob a s = Some (tcp_output ext a s2) \<or>
            tcp_slowtmr_active_pcb cfg ext oob a s
              = tcp_pcb_free ext a rst (prev (tcp_conn_iter s))
                  (tcp_report_err a ERR_ABRT
                     (upd_pcb a (\<lambda>p. p\<lparr>flags := flags p - {TF_ACK_DELAY}\<rparr>) s2))"
    by blast
  from r show ?thesis
  proof
    assume k: "tcp_slowtmr_active_pcb cfg ext oob a s = Some (tcp_output ext a s2)"
    have t: "touches_only a s (tcp_output ext a s2)"
      by (rule touches_only_trans [OF t2 tcp_output_touches [OF out]])
    have "act_rel ?A s (tcp_output ext a s2)" by (rule touches_only_act_rel [OF t]) simp
    moreover have "iter_at (tcp_output ext a s2) L_active (ys @ [a]) zs"
      by (rule iter_on_kept [OF touches_only_iter_on [OF t on]])
    ultimately show ?thesis using k by blast
  next
    let ?s4 = "tcp_report_err a ERR_ABRT (upd_pcb a (\<lambda>p. p\<lparr>flags := flags p - {TF_ACK_DELAY}\<rparr>) s2)"
    assume f: "tcp_slowtmr_active_pcb cfg ext oob a s
                 = tcp_pcb_free ext a rst (prev (tcp_conn_iter s)) ?s4"
    have "touches_only a s2 ?s4"
      by (rule touches_only_trans [OF touches_only_upd tcp_report_err_touches]) simp_all
    with t2 have t4: "touches_only a s ?s4" by (rule touches_only_trans)
    have on4: "iter_on ?s4 L_active ys a zs" by (rule touches_only_iter_on [OF t4 on])
    have st4: "tcp_state_is_active (state (pcbs ?s4 a))"
      using st by (simp only: touches_only_fields(1) [OF t4])
    from tcp_pcb_free_active [OF on4 st4 out, of rst] obtain s' where
      fr: "tcp_pcb_free ext a rst (list_last ys) ?s4 = Some s'"
      and at: "iter_at s' L_active ys zs" and rel: "act_rel ?A ?s4 s'"
      by blast
    have "act_rel ?A s ?s4" by (rule touches_only_act_rel [OF t4]) simp
    with rel have "act_rel ?A s s'" by (blast intro: act_rel_trans)
    with f fr at pr show ?thesis by simp
  qed
qed

lemma act_rel_state: "act_rel A s s' \<Longrightarrow> state (pcbs s' b) = state (pcbs s b)"
  by (simp add: act_rel_def)

lemma tcp_slowtmr_active_loop_chain:
  assumes "iter_at s L_active ys zs"
    and "\<forall>b\<in>set (ys @ zs). tcp_state_is_active (state (pcbs s b))"
    and ext: "ext_keeps_links ext"
  shows "\<exists>s' as'. tcp_slowtmr_active_loop cfg ext oob s = Some s'
           \<and> pcb_chain (pcbs s') (tcp_active_pcbs s') as' \<and> set as' \<subseteq> set (ys @ zs)
           \<and> act_rel (set (ys @ zs)) s s'"
  using assms(1,2)
proof (induction zs arbitrary: s ys)
  case Nil
  from iter_at_next [OF Nil.prems(1)]
  have "tcp_slowtmr_active_loop cfg ext oob s
          = Some (s\<lparr>tcp_conn_iter := \<lparr>current = None, prev = list_last ys, next_is_current = False\<rparr>\<rparr>)"
    by (subst tcp_slowtmr_active_loop.simps) simp
  moreover from Nil.prems(1) have "pcb_chain (pcbs s) (tcp_active_pcbs s) ys" by (simp add: iter_at_def)
  ultimately show ?case
    by (intro exI [of _ "s\<lparr>tcp_conn_iter := \<lparr>current = None, prev = list_last ys, next_is_current = False\<rparr>\<rparr>"]
          exI [of _ ys]) simp
next
  case (Cons a zs)
  let ?A = "set (ys @ a # zs)"
  let ?it = "\<lparr>current = Some a, prev = list_last ys, next_is_current = False\<rparr>"
  let ?s = "s\<lparr>tcp_conn_iter := ?it\<rparr>"
  from iter_at_next [OF Cons.prems(1)]
  have nx: "tcp_iter_next (pcbs s) (tcp_conn_iter s) = Some (Some a, ?it)" by simp
  have on: "iter_on ?s L_active ys a zs" by (rule iter_at_deliver [OF Cons.prems(1)])
  have "\<exists>s1 ys1. (if last_timer (pcbs s a) = tcp_timer_ctr s then Some ?s
                   else tcp_slowtmr_active_pcb cfg ext oob a ?s) = Some s1
          \<and> act_rel ?A s s1 \<and> iter_at s1 L_active ys1 zs \<and> set ys1 \<subseteq> set ys \<union> {a}"
  proof (cases "last_timer (pcbs s a) = tcp_timer_ctr s")
    case True
    with iter_on_kept [OF on] show ?thesis by (intro exI [of _ ?s] exI [of _ "ys @ [a]"]) simp
  next
    case False
    from Cons.prems(2) have "tcp_state_is_active (state (pcbs ?s a))" by simp
    from tcp_slowtmr_active_pcb_step [OF on this ext, of cfg oob] obtain s1 where
      b: "tcp_slowtmr_active_pcb cfg ext oob a ?s = Some s1"
      and rel: "act_rel ?A ?s s1"
      and at: "iter_at s1 L_active (ys @ [a]) zs \<or> iter_at s1 L_active ys zs"
      by blast
    have rel': "act_rel ?A s s1" by (rule act_rel_trans [OF act_rel_iter rel])
    from at show ?thesis
    proof
      assume "iter_at s1 L_active (ys @ [a]) zs"
      with False b rel' show ?thesis by (intro exI [of _ s1] exI [of _ "ys @ [a]"]) simp
    next
      assume "iter_at s1 L_active ys zs"
      with False b rel' show ?thesis by (intro exI [of _ s1] exI [of _ ys]) auto
    qed
  qed
  then obtain s1 ys1 where
    b: "(if last_timer (pcbs s a) = tcp_timer_ctr s then Some ?s
         else tcp_slowtmr_active_pcb cfg ext oob a ?s) = Some s1"
    and rel1: "act_rel ?A s s1" and at1: "iter_at s1 L_active ys1 zs"
    and sub: "set ys1 \<subseteq> set ys \<union> {a}"
    by blast
  from sub have sub': "set (ys1 @ zs) \<subseteq> ?A" by auto
  have st1: "\<forall>b\<in>set (ys1 @ zs). tcp_state_is_active (state (pcbs s1 b))"
  proof
    fix b assume "b \<in> set (ys1 @ zs)"
    with sub' have "b \<in> ?A" by blast
    with Cons.prems(2) show "tcp_state_is_active (state (pcbs s1 b))"
      by (simp only: act_rel_state [OF rel1])
  qed
  from Cons.IH [OF at1 st1] obtain s' as' where
    lp: "tcp_slowtmr_active_loop cfg ext oob s1 = Some s'"
    and ch: "pcb_chain (pcbs s') (tcp_active_pcbs s') as'"
    and as': "set as' \<subseteq> set (ys1 @ zs)"
    and rel: "act_rel (set (ys1 @ zs)) s1 s'"
    by blast
  have "tcp_slowtmr_active_loop cfg ext oob s = Some s'"
  proof (cases "last_timer (pcbs s a) = tcp_timer_ctr s")
    case True
    with b have "s1 = ?s" by simp
    with lp True show ?thesis by (subst tcp_slowtmr_active_loop.simps) (simp add: nx)
  next
    case False
    with b have "tcp_slowtmr_active_pcb cfg ext oob a ?s = Some s1" by simp
    with lp False show ?thesis by (subst tcp_slowtmr_active_loop.simps) (simp add: nx)
  qed
  moreover have "act_rel ?A s s'"
    by (rule act_rel_trans [OF rel1 act_rel_mono [OF rel sub']])
  moreover from as' sub' have "set as' \<subseteq> ?A" by blast
  ultimately show ?case using ch by blast
qed

subsection \<open>One slow tick\<close>

text \<open>
  The lists of the connection PCBs: the active list holds PCBs in active states, the tw
  list PCBs in \<open>TIME_WAIT\<close>.
\<close>

definition conn_lists :: "tcp_glob \<Rightarrow> addr list \<Rightarrow> addr list \<Rightarrow> bool" where
  "conn_lists s as ts =
     (pcb_chain (pcbs s) (tcp_active_pcbs s) as \<and> pcb_chain (pcbs s) (tcp_tw_pcbs s) ts \<and>
      (\<forall>b\<in>set as. tcp_state_is_active (state (pcbs s b))) \<and>
      (\<forall>b\<in>set ts. state (pcbs s b) = TIME_WAIT))"

lemma conn_lists_disjoint: "conn_lists s as ts \<Longrightarrow> b \<in> set ts \<Longrightarrow> b \<notin> set as"
  by (auto simp: conn_lists_def)

text \<open>Equal but for the link and for the backlog count.\<close>

definition same_data :: "tcp_pcb \<Rightarrow> tcp_pcb \<Rightarrow> bool" where
  "same_data p p' = (p' = p\<lparr>pcb_next := pcb_next p', accepts_pending := accepts_pending p'\<rparr>)"

lemma same_dataI: "p' = p\<lparr>pcb_next := n, accepts_pending := c\<rparr> \<Longrightarrow> same_data p p'"
  by (simp add: same_data_def)

lemma same_data_refl [simp]: "same_data p p"
  by (simp add: same_data_def)

lemma same_data_trans: "same_data p p' \<Longrightarrow> same_data p' p'' \<Longrightarrow> same_data p p''"
proof -
  assume 1: "same_data p p'" and 2: "same_data p' p''"
  from 2 have e2: "p'' = p'\<lparr>pcb_next := pcb_next p'', accepts_pending := accepts_pending p''\<rparr>"
    by (simp add: same_data_def)
  from 1 have e1: "p' = p\<lparr>pcb_next := pcb_next p', accepts_pending := accepts_pending p'\<rparr>"
    by (simp add: same_data_def)
  have "p'' = p\<lparr>pcb_next := pcb_next p'', accepts_pending := accepts_pending p''\<rparr>"
    by (subst e2, subst e1) (rule tcp_pcb.equality, simp_all)
  then show ?thesis by (simp add: same_data_def)
qed

lemma same_data_fields:
  assumes "same_data p p'"
  shows "state p' = state p" and "tmr p' = tmr p" and "flags p' = flags p"
    and "sndq p' = sndq p" and "sndq_last p' = sndq_last p" and "sndq_next p' = sndq_next p"
    and "rtime p' = rtime p" and "listener p' = listener p"
proof -
  from assms have e: "p' = p\<lparr>pcb_next := pcb_next p', accepts_pending := accepts_pending p'\<rparr>"
    by (simp add: same_data_def)
  show "state p' = state p" by (subst e) simp
  show "tmr p' = tmr p" by (subst e) simp
  show "flags p' = flags p" by (subst e) simp
  show "sndq p' = sndq p" by (subst e) simp
  show "sndq_last p' = sndq_last p" by (subst e) simp
  show "sndq_next p' = sndq_next p" by (subst e) simp
  show "rtime p' = rtime p" by (subst e) simp
  show "listener p' = listener p" by (subst e) simp
qed

text \<open>The test of the second loop, on the state before the run.\<close>

definition tw_due :: "tcp_opts \<Rightarrow> tcp_glob \<Rightarrow> addr \<Rightarrow> bool" where
  "tw_due cfg s a =
     (2 * TCP_MSL cfg div TCP_SLOW_INTERVAL cfg < unat (tcp_ticks s + 1 - tmr (pcbs s a)))"

lemma tcp_slowtmr_run:
  assumes lists: "conn_lists s as ts" and ext: "ext_keeps_links ext"
  shows "\<exists>s' as' fr. tcp_slowtmr cfg ext oob s = Some s'
           \<and> conn_lists s' as' (filter (\<lambda>b. \<not> tw_due cfg s b) ts)
           \<and> set as' \<subseteq> set as
           \<and> tcp_ticks s' = tcp_ticks s + 1
           \<and> (\<forall>b\<in>set ts. same_data (pcbs s b) (pcbs s' b))
           \<and> freed s' = freed s @ fr @ filter (tw_due cfg s) ts \<and> set fr \<subseteq> set as
           \<and> tcp_listen_pcbs s' = tcp_listen_pcbs s \<and> tcp_bound_pcbs s' = tcp_bound_pcbs s
           \<and> (\<forall>b. state (pcbs s' b) = state (pcbs s b))
           \<and> (\<forall>b. b \<notin> set as \<longrightarrow> b \<notin> set ts \<longrightarrow>
                  pcbs s' b = (pcbs s b)\<lparr>accepts_pending := accepts_pending (pcbs s' b)\<rparr>)"
proof -
  let ?s1 = "s\<lparr>tcp_ticks := tcp_ticks s + 1, tcp_timer_ctr := tcp_timer_ctr s + 1\<rparr>"
  let ?s2 = "?s1\<lparr>tcp_conn_iter := tcp_iter_start (tcp_active_pcbs ?s1)\<rparr>"
  from lists have ca: "pcb_chain (pcbs s) (tcp_active_pcbs s) as"
    and ct: "pcb_chain (pcbs s) (tcp_tw_pcbs s) ts"
    and sa: "\<forall>b\<in>set as. tcp_state_is_active (state (pcbs s b))"
    and st: "\<forall>b\<in>set ts. state (pcbs s b) = TIME_WAIT"
    by (simp_all add: conn_lists_def)
  have dj: "b \<notin> set as" if "b \<in> set ts" for b using that lists by (rule conn_lists_disjoint [rotated])
  from ca have "pcb_chain (pcbs ?s1) (get_head L_active ?s1) as" by simp
  from iter_at_start [OF this] have at2: "iter_at ?s2 L_active [] as" by simp
  from sa have sa2: "\<forall>b\<in>set ([] @ as). tcp_state_is_active (state (pcbs ?s2 b))" by simp
  from tcp_slowtmr_active_loop_chain [OF at2 sa2 ext, of cfg oob] obtain s3 as' where
    l3: "tcp_slowtmr_active_loop cfg ext oob ?s2 = Some s3"
    and ca3: "pcb_chain (pcbs s3) (tcp_active_pcbs s3) as'"
    and sub: "set as' \<subseteq> set as"
    and rel3: "act_rel (set as) ?s2 s3"
    by auto
  from rel3 obtain fr where fr: "freed s3 = freed s @ fr" "set fr \<subseteq> set as"
    unfolding act_rel_def by auto
  from rel3 have h3: "tcp_tw_pcbs s3 = tcp_tw_pcbs s" "tcp_ticks s3 = tcp_ticks s + 1"
    and st3: "\<And>b. state (pcbs s3 b) = state (pcbs s b)"
    and p3: "\<And>b. b \<notin> set as \<Longrightarrow>
               pcbs s3 b = (pcbs s b)\<lparr>accepts_pending := accepts_pending (pcbs s3 b)\<rparr>"
    unfolding act_rel_def by simp_all
  have n3: "pcb_next (pcbs s3 b) = pcb_next (pcbs s b)" "tmr (pcbs s3 b) = tmr (pcbs s b)"
    if "b \<in> set ts" for b
    using act_rel_fields [OF rel3 dj [OF that]] by simp_all
  have "pcb_chain (pcbs s3) (tcp_tw_pcbs s) ts = pcb_chain (pcbs s) (tcp_tw_pcbs s) ts"
    by (rule pcb_chain_cong) (rule n3)
  with ct h3 have ct3: "pcb_chain (pcbs s3) (tcp_tw_pcbs s3) ts" by simp
  let ?s4 = "s3\<lparr>tcp_conn_iter := tcp_iter_start (tcp_tw_pcbs s3)\<rparr>"
  from ct3 have "pcb_chain (pcbs s3) (get_head L_tw s3) ts" by simp
  from iter_at_start [OF this] have at4: "iter_at ?s4 L_tw [] ts" by simp
  from st st3 have st4: "\<forall>b\<in>set ([] @ ts). state (pcbs ?s4 b) = TIME_WAIT" by simp
  from tcp_slowtmr_tw_loop_chain [OF at4 st4, of cfg ext] obtain s' where
    l5: "tcp_slowtmr_tw_loop cfg ext ?s4 = Some s'"
    and ct5: "pcb_chain (pcbs s') (tcp_tw_pcbs s') (filter (\<lambda>b. \<not> tw_expired cfg ?s4 b) ts)"
    and rel5: "tw_rel (set ts) ?s4 s'"
    and fr5: "freed s' = freed ?s4 @ filter (tw_expired cfg ?s4) ts"
    by auto
  have due: "tw_expired cfg ?s4 b = tw_due cfg s b" if "b \<in> set ts" for b
    using n3(2) [OF that] h3(2) by (simp add: tw_expired_def tw_due_def)
  then have f1: "filter (tw_expired cfg ?s4) ts = filter (tw_due cfg s) ts"
    and f2: "filter (\<lambda>b. \<not> tw_expired cfg ?s4 b) ts = filter (\<lambda>b. \<not> tw_due cfg s b) ts"
    by (auto intro: filter_cong)
  from rel5 have h5: "tcp_active_pcbs s' = tcp_active_pcbs s3" "tcp_ticks s' = tcp_ticks s3"
    and p5: "\<And>b. pcbs s' b = (pcbs s3 b)\<lparr>pcb_next := pcb_next (pcbs s' b)\<rparr>"
    and o5: "\<And>b. b \<notin> set ts \<Longrightarrow> pcbs s' b = pcbs s3 b"
    unfolding tw_rel_def by simp_all
  have st5: "state (pcbs s' b) = state (pcbs s b)" for b
    using tw_rel_fields(1) [OF rel5, of b] st3 [of b] by simp
  have "pcb_chain (pcbs s') (tcp_active_pcbs s3) as' = pcb_chain (pcbs s3) (tcp_active_pcbs s3) as'"
  proof (rule pcb_chain_cong)
    fix b assume "b \<in> set as'"
    with sub dj have "b \<notin> set ts" by blast
    then show "pcb_next (pcbs s' b) = pcb_next (pcbs s3 b)" by (simp add: o5)
  qed
  with ca3 h5 have ca5: "pcb_chain (pcbs s') (tcp_active_pcbs s') as'" by simp
  have cl: "conn_lists s' as' (filter (\<lambda>b. \<not> tw_due cfg s b) ts)"
    unfolding conn_lists_def using ca5 ct5 sa st sub by (auto simp: f2 st5)
  have sd: "same_data (pcbs s b) (pcbs s' b)" if "b \<in> set ts" for b
  proof (rule same_dataI)
    have "pcbs s' b = (pcbs s3 b)\<lparr>pcb_next := pcb_next (pcbs s' b)\<rparr>" by (rule p5)
    also have "pcbs s3 b = (pcbs s b)\<lparr>accepts_pending := accepts_pending (pcbs s3 b)\<rparr>"
      by (rule p3 [OF dj [OF that]])
    finally have e: "pcbs s' b = (pcbs s b)\<lparr>accepts_pending := accepts_pending (pcbs s3 b),
        pcb_next := pcb_next (pcbs s' b)\<rparr>" .
    show "pcbs s' b = (pcbs s b)\<lparr>pcb_next := pcb_next (pcbs s' b),
        accepts_pending := accepts_pending (pcbs s3 b)\<rparr>"
      by (subst e) (rule tcp_pcb.equality, simp_all)
  qed
  have run: "tcp_slowtmr cfg ext oob s = Some s'"
    unfolding tcp_slowtmr_def Let_def using l3 l5 by simp
  have "freed s' = freed s @ fr @ filter (tw_due cfg s) ts" using fr5 fr(1) by (simp add: f1)
  moreover have "tcp_listen_pcbs s' = tcp_listen_pcbs s" "tcp_bound_pcbs s' = tcp_bound_pcbs s"
    using rel3 rel5 unfolding act_rel_def tw_rel_def by simp_all
  moreover have "pcbs s' b = (pcbs s b)\<lparr>accepts_pending := accepts_pending (pcbs s' b)\<rparr>"
    if "b \<notin> set as" "b \<notin> set ts" for b
    using p3 [OF that(1)] o5 [OF that(2)] by simp
  ultimately show ?thesis using run cl sub h5 h3 sd fr(2) st5 by auto
qed

subsection \<open>tcp_move_to_time_wait\<close>

lemma iter_will_remove_returns:
  "pcb_chain h pl xs \<Longrightarrow> \<exists>it'. tcp_iter_will_remove h it a pl = Some it'"
  by (simp add: tcp_iter_will_remove_def tcp_iter_prev_prev_chain split: option.splits)

lemma tcp_pcb_purge_at:
  "rtime (pcbs (tcp_pcb_purge a s) a) = - 1"
  "sndq (pcbs (tcp_pcb_purge a s) a) = []"
  "sndq_last (pcbs (tcp_pcb_purge a s) a) = None"
  "sndq_next (pcbs (tcp_pcb_purge a s) a) = None"
  "tmr (pcbs (tcp_pcb_purge a s) a) = tmr (pcbs s a)"
  "flags (pcbs (tcp_pcb_purge a s) a)
     = (if listener (pcbs s a) = None then flags (pcbs s a)
        else flags (pcbs s a) - {TF_BACKLOGPEND})"
proof -
  let ?s1 = "tcp_backlog_accepted_internal a s"
  let ?s2 = "upd_pcb a (\<lambda>p. p\<lparr>rtime := - 1\<rparr>) ?s1"
  from tcp_segs_free_frame [of "sndq (pcbs ?s2 a)" ?s2] obtain fs where
    3: "tcp_segs_free (sndq (pcbs ?s2 a)) ?s2 = ?s2\<lparr>freed_segs := fs\<rparr>" by blast
  have p: "pcbs (tcp_pcb_purge a s) a
      = (pcbs ?s1 a)\<lparr>rtime := - 1, sndq := [], sndq_last := None, sndq_next := None\<rparr>"
    unfolding tcp_pcb_purge_def Let_def 3 by (simp add: upd_pcb_def)
  have t: "tmr (pcbs ?s1 a) = tmr (pcbs s a)"
    by (simp add: tcp_backlog_accepted_internal_def upd_pcb_def split: option.splits)
  have f: "flags (pcbs ?s1 a) = (if listener (pcbs s a) = None then flags (pcbs s a)
        else flags (pcbs s a) - {TF_BACKLOGPEND})"
    by (auto simp: tcp_backlog_accepted_internal_def upd_pcb_def split: option.splits)
  show "rtime (pcbs (tcp_pcb_purge a s) a) = - 1"
    "sndq (pcbs (tcp_pcb_purge a s) a) = []"
    "sndq_last (pcbs (tcp_pcb_purge a s) a) = None"
    "sndq_next (pcbs (tcp_pcb_purge a s) a) = None"
    "tmr (pcbs (tcp_pcb_purge a s) a) = tmr (pcbs s a)"
    "flags (pcbs (tcp_pcb_purge a s) a)
     = (if listener (pcbs s a) = None then flags (pcbs s a)
        else flags (pcbs s a) - {TF_BACKLOGPEND})"
    unfolding p using t f by simp_all
qed

text \<open>A PCB with nothing to send and a stopped retransmission timer.\<close>

definition pcb_quiet :: "tcp_pcb \<Rightarrow> bool" where
  "pcb_quiet p = (sndq p = [] \<and> sndq_last p = None \<and> sndq_next p = None \<and> rtime p = - 1)"

lemma tcp_move_to_time_wait_lists:
  assumes lists: "conn_lists s as ts" and a: "a \<in> set as"
  shows "\<exists>s'. tcp_move_to_time_wait a s = Some s'
           \<and> conn_lists s' (remove1 a as) (a # ts)
           \<and> tcp_ticks s' = tcp_ticks s \<and> freed s' = freed s
           \<and> tmr (pcbs s' a) = tmr (pcbs s a)
           \<and> pcb_quiet (pcbs s' a)
           \<and> flags (pcbs s' a) = (if listener (pcbs s a) = None then flags (pcbs s a)
                                    else flags (pcbs s a) - {TF_BACKLOGPEND})
           \<and> (\<forall>b\<in>set ts. same_data (pcbs s b) (pcbs s' b))
           \<and> tcp_listen_pcbs s' = tcp_listen_pcbs s \<and> tcp_bound_pcbs s' = tcp_bound_pcbs s
           \<and> (\<forall>b. b \<noteq> a \<longrightarrow> state (pcbs s' b) = state (pcbs s b))
           \<and> (\<forall>b. b \<notin> set as \<longrightarrow>
                  pcbs s' b = (pcbs s b)\<lparr>accepts_pending := accepts_pending (pcbs s' b)\<rparr>)"
proof -
  from lists have ca: "pcb_chain (pcbs s) (tcp_active_pcbs s) as"
    and ct: "pcb_chain (pcbs s) (tcp_tw_pcbs s) ts"
    and sa: "\<forall>b\<in>set as. tcp_state_is_active (state (pcbs s b))"
    and st: "\<forall>b\<in>set ts. state (pcbs s b) = TIME_WAIT"
    by (simp_all add: conn_lists_def)
  have dj: "b \<notin> set as" if "b \<in> set ts" for b using that lists by (rule conn_lists_disjoint [rotated])
  from a dj have ats: "a \<notin> set ts" by blast
  from ca have da: "distinct as" by (rule pcb_chain_distinct)
  from iter_will_remove_returns [OF ca, of "tcp_conn_iter s" a] obtain it where
    w: "tcp_iter_will_remove (pcbs s) (tcp_conn_iter s) a (tcp_active_pcbs s) = Some it" by blast
  let ?sA = "s\<lparr>tcp_conn_iter := it\<rparr>"
  from ca have "pcb_chain (pcbs ?sA) (get_head L_active ?sA) as" by simp
  from tcp_rmv_frame [OF this, of a] obtain h p where
    r: "tcp_rmv L_active a ?sA = Some (set_head L_active p (?sA\<lparr>pcbs := h\<rparr>))"
    and fr: "\<And>b. h b = (pcbs s b)\<lparr>pcb_next := pcb_next (h b)\<rparr>"
    and oth: "\<And>b. b \<notin> set as \<Longrightarrow> b \<noteq> a \<Longrightarrow> h b = pcbs s b"
    and c1: "pcb_chain h p (remove1 a as)"
    by auto
  let ?s1 = "set_head L_active p (?sA\<lparr>pcbs := h\<rparr>)"
  have hst: "state (h b) = state (pcbs s b)" "tmr (h b) = tmr (pcbs s b)"
    "flags (h b) = flags (pcbs s b)" "listener (h b) = listener (pcbs s b)" for b
  proof -
    show "state (h b) = state (pcbs s b)" by (subst fr) simp
    show "tmr (h b) = tmr (pcbs s b)" by (subst fr) simp
    show "flags (h b) = flags (pcbs s b)" by (subst fr) simp
    show "listener (h b) = listener (pcbs s b)" by (subst fr) simp
  qed
  from tcp_pcb_purge_frame [of a ?s1] obtain h2 fs where
    pu: "tcp_pcb_purge a ?s1 = ?s1\<lparr>pcbs := h2, freed_segs := fs\<rparr>"
    and n2: "\<And>b. pcb_next (h2 b) = pcb_next (h b)" "\<And>b. state (h2 b) = state (h b)"
    and o2: "\<And>b. b \<noteq> a \<Longrightarrow> h2 b = (h b)\<lparr>accepts_pending := accepts_pending (h2 b)\<rparr>"
    by auto
  have h2a: "h2 a = pcbs (tcp_pcb_purge a ?s1) a" unfolding pu by simp
  let ?h3 = "h2(a := (h2 a)\<lparr>state := TIME_WAIT\<rparr>)"
  let ?h4 = "?h3(a := (?h3 a)\<lparr>pcb_next := tcp_tw_pcbs s\<rparr>)"
  define s' where "s' = tcp_reg L_tw a
     (upd_pcb a (\<lambda>p. p\<lparr>state := TIME_WAIT\<rparr>) (tcp_pcb_purge a ?s1)
        \<lparr>tcp_conn_iter := tcp_iter_will_prepend
            (tcp_conn_iter (upd_pcb a (\<lambda>p. p\<lparr>state := TIME_WAIT\<rparr>) (tcp_pcb_purge a ?s1))) a
            (tcp_tw_pcbs (upd_pcb a (\<lambda>p. p\<lparr>state := TIME_WAIT\<rparr>) (tcp_pcb_purge a ?s1)))\<rparr>)"
  have mv: "tcp_move_to_time_wait a s = Some s'"
    unfolding tcp_move_to_time_wait_def Let_def s'_def using w r by simp
  have ps': "pcbs s' = ?h4"
    unfolding s'_def pu by (simp add: pcbs_tcp_reg upd_pcb_def)
  have heads: "tcp_active_pcbs s' = p" "tcp_tw_pcbs s' = Some a"
    unfolding s'_def pu by (simp_all add: tcp_reg_def Let_def upd_pcb_def log_event_def)
  have misc: "tcp_ticks s' = tcp_ticks s" "freed s' = freed s"
    unfolding s'_def pu by (simp_all add: tcp_reg_def Let_def upd_pcb_def log_event_def)
  from da have nr: "a \<notin> set (remove1 a as)" by simp
  have "pcb_chain h2 p (remove1 a as) = pcb_chain h p (remove1 a as)"
    by (rule pcb_chain_cong) (rule n2)
  with c1 nr have ca': "pcb_chain (pcbs s') (tcp_active_pcbs s') (remove1 a as)"
    unfolding ps' heads by (simp add: pcb_chain_upd_other)
  have "pcb_chain h2 (tcp_tw_pcbs s) ts = pcb_chain (pcbs s) (tcp_tw_pcbs s) ts"
  proof (rule pcb_chain_cong)
    fix b assume b: "b \<in> set ts"
    with dj ats have "b \<notin> set as" "b \<noteq> a" by auto
    from oth [OF this] n2(1) [of b] show "pcb_next (h2 b) = pcb_next (pcbs s b)" by simp
  qed
  with ct ats have ct': "pcb_chain (pcbs s') (tcp_tw_pcbs s') (a # ts)"
    unfolding ps' heads by (simp add: pcb_chain_upd_other)
  have st': "state (pcbs s' b) = (if b = a then TIME_WAIT else state (pcbs s b))" for b
    unfolding ps' using n2(2) [of b] hst(1) [of b] by simp
  have cl: "conn_lists s' (remove1 a as) (a # ts)"
    unfolding conn_lists_def using ca' ct' sa st ats nr
    by (auto simp: st' dest: notin_set_remove1)
  have pa: "pcbs s' a = (h2 a)\<lparr>state := TIME_WAIT, pcb_next := tcp_tw_pcbs s\<rparr>"
    unfolding ps' by simp
  have q: "pcb_quiet (pcbs s' a)"
    unfolding pa h2a pcb_quiet_def by (simp add: tcp_pcb_purge_at)
  have tm: "tmr (pcbs s' a) = tmr (pcbs s a)"
    unfolding pa h2a using hst(2) [of a] by (simp add: tcp_pcb_purge_at)
  have fl: "flags (pcbs s' a) = (if listener (pcbs s a) = None then flags (pcbs s a)
                                    else flags (pcbs s a) - {TF_BACKLOGPEND})"
    unfolding pa h2a using hst(3,4) [of a] by (simp add: tcp_pcb_purge_at)
  have sd: "same_data (pcbs s b) (pcbs s' b)" if "b \<in> set ts" for b
  proof (rule same_dataI)
    from that dj ats have b: "b \<notin> set as" "b \<noteq> a" by auto
    have "pcbs s' b = h2 b" unfolding ps' using b by simp
    also have "h2 b = (h b)\<lparr>accepts_pending := accepts_pending (h2 b)\<rparr>" by (rule o2 [OF b(2)])
    also have "h b = pcbs s b" by (rule oth [OF b])
    finally show "pcbs s' b = (pcbs s b)\<lparr>pcb_next := pcb_next (pcbs s b),
        accepts_pending := accepts_pending (h2 b)\<rparr>" by simp
  qed
  have hd: "tcp_listen_pcbs s' = tcp_listen_pcbs s" "tcp_bound_pcbs s' = tcp_bound_pcbs s"
    unfolding s'_def pu by (simp_all add: tcp_reg_def Let_def upd_pcb_def log_event_def)
  have ot: "pcbs s' b = (pcbs s b)\<lparr>accepts_pending := accepts_pending (pcbs s' b)\<rparr>"
    if "b \<notin> set as" for b
  proof -
    from that a have b: "b \<noteq> a" by blast
    have e: "pcbs s' b = h2 b" unfolding ps' using b by simp
    have "h2 b = (h b)\<lparr>accepts_pending := accepts_pending (h2 b)\<rparr>" by (rule o2 [OF b])
    also have "h b = pcbs s b" by (rule oth [OF that b])
    finally show ?thesis unfolding e .
  qed
  from mv cl misc tm q fl sd hd st' ot show ?thesis by auto
qed

subsection \<open>The time on the tw list\<close>

text \<open>\<open>k\<close> slow ticks, one after the other.\<close>

fun tcp_slowtmr_times ::
  "tcp_opts \<Rightarrow> tcp_ext \<Rightarrow> (nat \<Rightarrow> u8_t) \<Rightarrow> nat \<Rightarrow> tcp_glob \<Rightarrow> tcp_glob option" where
  "tcp_slowtmr_times cfg ext oob 0 s = Some s"
| "tcp_slowtmr_times cfg ext oob (Suc k) s =
     do { s1 \<leftarrow> tcp_slowtmr cfg ext oob s; tcp_slowtmr_times cfg ext oob k s1 }"

lemma u32_succ: "unat (x::u32_t) + 1 < 2 ^ 32 \<Longrightarrow> unat (x + 1) = unat x + 1"
  by (simp add: unat_word_ariths)

lemma tw_age_step:
  fixes t m :: u32_t
  assumes "unat (t - m) + 1 < 2 ^ 32"
  shows "unat (t + 1 - m) = unat (t - m) + 1"
proof -
  have e: "t + 1 - m = (t - m) + 1" by simp
  show ?thesis unfolding e by (rule u32_succ [OF assms])
qed

text \<open>The age of a PCB in slow ticks, as the loops of \<open>tcp_slowtmr\<close> compute it, and the limit of the tw list.\<close>

definition pcb_age :: "tcp_glob \<Rightarrow> addr \<Rightarrow> nat" where
  "pcb_age s a = unat (tcp_ticks s - tmr (pcbs s a))"

definition tw_limit :: "tcp_opts \<Rightarrow> nat" where
  "tw_limit cfg = 2 * TCP_MSL cfg div TCP_SLOW_INTERVAL cfg"

lemma tw_due_age:
  "pcb_age s a + 1 < 2 ^ 32 \<Longrightarrow> tw_due cfg s a = (tw_limit cfg < pcb_age s a + 1)"
  by (simp add: tw_due_def pcb_age_def tw_limit_def tw_age_step)

lemma tw_waits:
  assumes "conn_lists s as ts" and "a \<in> set ts" and ext: "ext_keeps_links ext"
    and "pcb_age s a + k \<le> tw_limit cfg" and small: "tw_limit cfg + 1 < 2 ^ 32"
  shows "\<exists>s' as' ts' fr. tcp_slowtmr_times cfg ext oob k s = Some s'
           \<and> conn_lists s' as' ts' \<and> a \<in> set ts' \<and> pcb_age s' a = pcb_age s a + k
           \<and> same_data (pcbs s a) (pcbs s' a)
           \<and> freed s' = freed s @ fr \<and> a \<notin> set fr"
  using assms(1,2,4)
proof (induction k arbitrary: s as ts)
  case 0
  then show ?case by (intro exI [of _ s] exI [of _ as] exI [of _ ts] exI [of _ "[]"]) simp
next
  case (Suc k)
  from Suc.prems(3) small have age: "pcb_age s a + 1 < 2 ^ 32" by simp
  from Suc.prems(3) have nd: "\<not> tw_due cfg s a" by (simp add: tw_due_age [OF age])
  from tcp_slowtmr_run [OF Suc.prems(1) ext, of cfg oob] obtain s1 as1 fr1 where
    run: "tcp_slowtmr cfg ext oob s = Some s1"
    and l1: "conn_lists s1 as1 (filter (\<lambda>b. \<not> tw_due cfg s b) ts)"
    and sub: "set as1 \<subseteq> set as"
    and t1: "tcp_ticks s1 = tcp_ticks s + 1"
    and d1: "\<forall>b\<in>set ts. same_data (pcbs s b) (pcbs s1 b)"
    and f1: "freed s1 = freed s @ fr1 @ filter (tw_due cfg s) ts" and fs: "set fr1 \<subseteq> set as"
    by blast
  from Suc.prems(2) nd have a1: "a \<in> set (filter (\<lambda>b. \<not> tw_due cfg s b) ts)" by simp
  from d1 Suc.prems(2) have sd1: "same_data (pcbs s a) (pcbs s1 a)" by blast
  have age1: "pcb_age s1 a = pcb_age s a + 1"
    using age by (simp add: pcb_age_def t1 same_data_fields(2) [OF sd1] tw_age_step)
  with Suc.prems(3) have "pcb_age s1 a + k \<le> tw_limit cfg" by simp
  from Suc.IH [OF l1 a1 this] obtain s' as' ts' fr where
    r: "tcp_slowtmr_times cfg ext oob k s1 = Some s'"
    and l: "conn_lists s' as' ts'" and a': "a \<in> set ts'"
    and ag: "pcb_age s' a = pcb_age s1 a + k"
    and sd: "same_data (pcbs s1 a) (pcbs s' a)"
    and f: "freed s' = freed s1 @ fr" and nf: "a \<notin> set fr"
    by blast
  from conn_lists_disjoint [OF Suc.prems(1,2)] fs have "a \<notin> set fr1" by blast
  with nd nf have "a \<notin> set (fr1 @ filter (tw_due cfg s) ts @ fr)" by simp
  moreover have "freed s' = freed s @ (fr1 @ filter (tw_due cfg s) ts @ fr)" using f f1 by simp
  moreover have "tcp_slowtmr_times cfg ext oob (Suc k) s = Some s'" using run r by simp
  moreover have "pcb_age s' a = pcb_age s a + Suc k" using ag age1 by simp
  moreover note l a' same_data_trans [OF sd1 sd]
  ultimately show ?case by blast
qed

lemma tw_reaped:
  assumes lists: "conn_lists s as ts" and a: "a \<in> set ts" and ext: "ext_keeps_links ext"
    and age: "pcb_age s a = tw_limit cfg" and small: "tw_limit cfg + 1 < 2 ^ 32"
  shows "\<exists>s' as' ts'. tcp_slowtmr cfg ext oob s = Some s'
           \<and> conn_lists s' as' ts' \<and> a \<notin> set ts' \<and> a \<in> set (freed s')"
proof -
  from age small have "pcb_age s a + 1 < 2 ^ 32" by simp
  from tw_due_age [OF this] age have due: "tw_due cfg s a" by simp
  from tcp_slowtmr_run [OF lists ext, of cfg oob] obtain s1 as1 fr1 where
    run: "tcp_slowtmr cfg ext oob s = Some s1"
    and l1: "conn_lists s1 as1 (filter (\<lambda>b. \<not> tw_due cfg s b) ts)"
    and f1: "freed s1 = freed s @ fr1 @ filter (tw_due cfg s) ts"
    by blast
  from due a have "a \<notin> set (filter (\<lambda>b. \<not> tw_due cfg s b) ts)" "a \<in> set (freed s1)"
    by (simp_all add: f1)
  with run l1 show ?thesis by blast
qed

lemma tcp_slowtmr_times_add:
  "tcp_slowtmr_times cfg ext oob (j + k) s
     = do { s1 \<leftarrow> tcp_slowtmr_times cfg ext oob j s; tcp_slowtmr_times cfg ext oob k s1 }"
  by (induction j arbitrary: s) (simp_all split: bind_split)

lemma tw_lifetime:
  assumes lists: "conn_lists s as ts" and a: "a \<in> set as" and ext: "ext_keeps_links ext"
    and nf: "a \<notin> set (freed s)"
    and age: "pcb_age s a \<le> tw_limit cfg" and small: "tw_limit cfg + 1 < 2 ^ 32"
  shows "\<exists>s0. tcp_move_to_time_wait a s = Some s0
           \<and> tcp_ticks s0 = tcp_ticks s \<and> tmr (pcbs s0 a) = tmr (pcbs s a)
           \<and> (\<forall>k. pcb_age s a + k \<le> tw_limit cfg \<longrightarrow>
                 (\<exists>s' ts'. tcp_slowtmr_times cfg ext oob k s0 = Some s'
                     \<and> pcb_chain (pcbs s') (tcp_tw_pcbs s') ts' \<and> a \<in> set ts'
                     \<and> a \<notin> set (freed s')))
           \<and> (\<exists>s' ts'. tcp_slowtmr_times cfg ext oob (tw_limit cfg + 1 - pcb_age s a) s0 = Some s'
                     \<and> pcb_chain (pcbs s') (tcp_tw_pcbs s') ts' \<and> a \<notin> set ts'
                     \<and> a \<in> set (freed s'))"
proof -
  from tcp_move_to_time_wait_lists [OF lists a] obtain s0 where
    mv: "tcp_move_to_time_wait a s = Some s0"
    and l0: "conn_lists s0 (remove1 a as) (a # ts)"
    and t0: "tcp_ticks s0 = tcp_ticks s" and f0: "freed s0 = freed s"
    and m0: "tmr (pcbs s0 a) = tmr (pcbs s a)"
    by blast
  have a0: "a \<in> set (a # ts)" by simp
  have age0: "pcb_age s0 a = pcb_age s a" by (simp add: pcb_age_def t0 m0)
  have wait: "\<exists>s' ts'. tcp_slowtmr_times cfg ext oob k s0 = Some s'
                     \<and> pcb_chain (pcbs s') (tcp_tw_pcbs s') ts' \<and> a \<in> set ts'
                     \<and> a \<notin> set (freed s')"
    if "pcb_age s a + k \<le> tw_limit cfg" for k
  proof -
    from that have "pcb_age s0 a + k \<le> tw_limit cfg" by (simp add: age0)
    from tw_waits [OF l0 a0 ext this small, of oob] obtain s' as' ts' fr where
      "tcp_slowtmr_times cfg ext oob k s0 = Some s'" "conn_lists s' as' ts'" "a \<in> set ts'"
      "freed s' = freed s0 @ fr" "a \<notin> set fr"
      by blast
    with nf f0 show ?thesis unfolding conn_lists_def by auto
  qed
  let ?k = "tw_limit cfg - pcb_age s a"
  from age have "pcb_age s0 a + ?k \<le> tw_limit cfg" by (simp add: age0)
  from tw_waits [OF l0 a0 ext this small, of oob] obtain s1 as1 ts1 where
    r1: "tcp_slowtmr_times cfg ext oob ?k s0 = Some s1"
    and l1: "conn_lists s1 as1 ts1" and a1: "a \<in> set ts1"
    and g1: "pcb_age s1 a = pcb_age s0 a + ?k"
    by blast
  from g1 age have "pcb_age s1 a = tw_limit cfg" by (simp add: age0)
  from tw_reaped [OF l1 a1 ext this small, of oob] obtain s' as' ts' where
    r2: "tcp_slowtmr cfg ext oob s1 = Some s'"
    and l2: "conn_lists s' as' ts'" and a2: "a \<notin> set ts'" "a \<in> set (freed s')"
    by blast
  from age have e: "tw_limit cfg + 1 - pcb_age s a = ?k + Suc 0" by simp
  have "tcp_slowtmr_times cfg ext oob (?k + Suc 0) s0 = Some s'"
    unfolding tcp_slowtmr_times_add using r1 r2 by simp
  then have "tcp_slowtmr_times cfg ext oob (tw_limit cfg + 1 - pcb_age s a) s0 = Some s'"
    unfolding e .
  with l2 a2 have "\<exists>s' ts'. tcp_slowtmr_times cfg ext oob (tw_limit cfg + 1 - pcb_age s a) s0 = Some s'
                     \<and> pcb_chain (pcbs s') (tcp_tw_pcbs s') ts' \<and> a \<notin> set ts'
                     \<and> a \<in> set (freed s')"
    unfolding conn_lists_def by blast
  with mv t0 m0 wait show ?thesis by blast
qed

text \<open>
  Claim C5, amended. Let \<open>tcp_move_to_time_wait\<close> be called on a PCB of the active list,
  in a state whose active list holds PCBs in active states and whose tw list holds PCBs
  in \<open>TIME_WAIT\<close>, with collaborators that leave links and states alone; let the age
  \<open>tcp_ticks - tmr\<close> of the PCB be at most \<open>2 * TCP_MSL / TCP_SLOW_INTERVAL\<close> (the
  division of C, \<open>tw_limit\<close>). The move returns and leaves \<open>tcp_ticks\<close> and the \<open>tmr\<close> of
  the PCB as they are. Then, counting the runs of \<open>tcp_slowtmr\<close> after the move:

  \<^item> after \<open>k\<close> runs, as long as the age at the move plus \<open>k\<close> is at most \<open>tw_limit\<close>,
    the PCB is on the tw list and was not freed;
  \<^item> after \<open>tw_limit + 1\<close> runs less the age at the move, the PCB is off the tw list and
    freed.

  For a PCB stamped at the tick of the move (age 0) that is the run number
  \<open>tw_limit + 1\<close>: one more than the \<open>\<lceil>2 * TCP_MSL / TCP_SLOW_INTERVAL\<rceil>\<close> of the claim when
  the division is exact, and equal to it otherwise.
\<close>

theorem tw_reaped_after_limit:
  assumes lists: "conn_lists s as ts" and a: "a \<in> set as" and ext: "ext_keeps_links ext"
    and nf: "a \<notin> set (freed s)"
    and age: "pcb_age s a \<le> tw_limit cfg" and small: "tw_limit cfg + 1 < 2 ^ 32"
  shows "\<exists>s0. tcp_move_to_time_wait a s = Some s0
           \<and> tcp_ticks s0 = tcp_ticks s \<and> tmr (pcbs s0 a) = tmr (pcbs s a)
           \<and> (\<forall>k. pcb_age s a + k \<le> tw_limit cfg \<longrightarrow>
                 (\<exists>s' ts'. tcp_slowtmr_times cfg ext oob k s0 = Some s'
                     \<and> pcb_chain (pcbs s') (tcp_tw_pcbs s') ts' \<and> a \<in> set ts'
                     \<and> a \<notin> set (freed s')))
           \<and> (\<exists>s' ts'. tcp_slowtmr_times cfg ext oob (tw_limit cfg + 1 - pcb_age s a) s0 = Some s'
                     \<and> pcb_chain (pcbs s') (tcp_tw_pcbs s') ts' \<and> a \<notin> set ts'
                     \<and> a \<in> set (freed s'))"
  using lists a ext nf age small by (rule tw_lifetime)

lemma tw_move_ex_facts:
  "conn_lists tw_move_ex [2] []" "(2::addr) \<in> set [2]" "ext_keeps_links ext_quiet"
  "2 \<notin> set (freed tw_move_ex)" "pcb_age tw_move_ex 2 = 0" "tw_limit lwip_opts = 240"
  by (simp_all add: conn_lists_def tw_move_ex_def glob_init_def pcb_zero_def ext_keeps_links_def
        keeps_next_def keeps_state_def ext_quiet_def pcb_age_def tw_limit_def lwip_opts_def)

theorem tw_reaped_after_limit_witness:
  "conn_lists tw_move_ex [2] [] \<and> 2 \<in> set [2::addr] \<and> ext_keeps_links ext_quiet
   \<and> 2 \<notin> set (freed tw_move_ex) \<and> pcb_age tw_move_ex 2 \<le> tw_limit lwip_opts
   \<and> tw_limit lwip_opts + 1 < 2 ^ 32
   \<and> (\<exists>s0 s1 ts1 s2 ts2. tcp_move_to_time_wait 2 tw_move_ex = Some s0
         \<and> tcp_slowtmr_times lwip_opts ext_quiet (\<lambda>i. 0) 240 s0 = Some s1
         \<and> pcb_chain (pcbs s1) (tcp_tw_pcbs s1) ts1 \<and> 2 \<in> set ts1 \<and> 2 \<notin> set (freed s1)
         \<and> tcp_slowtmr_times lwip_opts ext_quiet (\<lambda>i. 0) 241 s0 = Some s2
         \<and> pcb_chain (pcbs s2) (tcp_tw_pcbs s2) ts2 \<and> 2 \<notin> set ts2 \<and> 2 \<in> set (freed s2))"
proof -
  have g: "pcb_age tw_move_ex 2 \<le> tw_limit lwip_opts" and sm: "tw_limit lwip_opts + 1 < 2 ^ 32"
    by (simp_all add: tw_move_ex_facts)
  from tw_reaped_after_limit [OF tw_move_ex_facts(1-4) g sm, of "\<lambda>i. 0"]
  obtain s0 where mv: "tcp_move_to_time_wait 2 tw_move_ex = Some s0"
    and w: "\<forall>k. pcb_age tw_move_ex 2 + k \<le> tw_limit lwip_opts \<longrightarrow>
                 (\<exists>s' ts'. tcp_slowtmr_times lwip_opts ext_quiet (\<lambda>i. 0) k s0 = Some s'
                     \<and> pcb_chain (pcbs s') (tcp_tw_pcbs s') ts' \<and> 2 \<in> set ts'
                     \<and> 2 \<notin> set (freed s'))"
    and r: "\<exists>s' ts'. tcp_slowtmr_times lwip_opts ext_quiet (\<lambda>i. 0)
                       (tw_limit lwip_opts + 1 - pcb_age tw_move_ex 2) s0 = Some s'
                     \<and> pcb_chain (pcbs s') (tcp_tw_pcbs s') ts' \<and> 2 \<notin> set ts'
                     \<and> 2 \<in> set (freed s')"
    by blast
  from w [rule_format, of 240] obtain s1 ts1 where
    1: "tcp_slowtmr_times lwip_opts ext_quiet (\<lambda>i. 0) 240 s0 = Some s1"
      "pcb_chain (pcbs s1) (tcp_tw_pcbs s1) ts1" "2 \<in> set ts1" "2 \<notin> set (freed s1)"
    by (auto simp: tw_move_ex_facts)
  from r obtain s2 ts2 where
    2: "tcp_slowtmr_times lwip_opts ext_quiet (\<lambda>i. 0) 241 s0 = Some s2"
      "pcb_chain (pcbs s2) (tcp_tw_pcbs s2) ts2" "2 \<notin> set ts2" "2 \<in> set (freed s2)"
    by (auto simp: tw_move_ex_facts)
  from mv 1 2 tw_move_ex_facts(1-4) g sm show ?thesis by blast
qed

text \<open>
  Claim C5 as it is stated fails with the default options of lwIP
  (\<open>TCP_MSL = 60000\<close>, \<open>TCP_SLOW_INTERVAL = 500\<close>): the quotient is 240 exactly; a PCB
  moved to the tw list at the tick of its stamp is still on the tw list, not freed, after
  240 runs of \<open>tcp_slowtmr\<close>.
\<close>

theorem tw_not_reaped_at_ceiling:
  "(2 * TCP_MSL lwip_opts + TCP_SLOW_INTERVAL lwip_opts - 1) div TCP_SLOW_INTERVAL lwip_opts = 240
   \<and> tmr (pcbs tw_move_ex 2) = tcp_ticks tw_move_ex
   \<and> (\<exists>s0 s1 ts1. tcp_move_to_time_wait 2 tw_move_ex = Some s0
         \<and> tcp_ticks s0 = tcp_ticks tw_move_ex \<and> tmr (pcbs s0 2) = tcp_ticks s0
         \<and> tcp_slowtmr_times lwip_opts ext_quiet (\<lambda>i. 0) 240 s0 = Some s1
         \<and> pcb_chain (pcbs s1) (tcp_tw_pcbs s1) ts1 \<and> 2 \<in> set ts1 \<and> 2 \<notin> set (freed s1))"
proof -
  have g: "pcb_age tw_move_ex 2 \<le> tw_limit lwip_opts" and sm: "tw_limit lwip_opts + 1 < 2 ^ 32"
    by (simp_all add: tw_move_ex_facts)
  have c: "(2 * TCP_MSL lwip_opts + TCP_SLOW_INTERVAL lwip_opts - 1) div TCP_SLOW_INTERVAL lwip_opts = 240"
    by (simp add: lwip_opts_def)
  have t: "tmr (pcbs tw_move_ex 2) = tcp_ticks tw_move_ex"
    by (simp add: tw_move_ex_def glob_init_def pcb_zero_def)
  from tw_lifetime [OF tw_move_ex_facts(1-4) g sm, of "\<lambda>i. 0"]
  obtain s0 where mv: "tcp_move_to_time_wait 2 tw_move_ex = Some s0"
    and k: "tcp_ticks s0 = tcp_ticks tw_move_ex" "tmr (pcbs s0 2) = tmr (pcbs tw_move_ex 2)"
    and w: "\<forall>k. pcb_age tw_move_ex 2 + k \<le> tw_limit lwip_opts \<longrightarrow>
                 (\<exists>s' ts'. tcp_slowtmr_times lwip_opts ext_quiet (\<lambda>i. 0) k s0 = Some s'
                     \<and> pcb_chain (pcbs s') (tcp_tw_pcbs s') ts' \<and> 2 \<in> set ts'
                     \<and> 2 \<notin> set (freed s'))"
    by blast
  from w [rule_format, of 240] obtain s1 ts1 where
    1: "tcp_slowtmr_times lwip_opts ext_quiet (\<lambda>i. 0) 240 s0 = Some s1"
      "pcb_chain (pcbs s1) (tcp_tw_pcbs s1) ts1" "2 \<in> set ts1" "2 \<notin> set (freed s1)"
    by (auto simp: tw_move_ex_facts)
  from c t mv k 1 show ?thesis by auto
qed

end
